theory Spec2Isabelle
  imports Complex_Main "HOL-Library.AList" "HOL-Library.Multiset" "HOL-Library.Product_Lexorder"
begin

section \<open>Task ranking engine (tasks/scoring.py)\<close>

text \<open>
  A shallow embedding of the scoring module: the normaliser, the four factor scorers, the
  dependency graph builder, the cycle detector, the strategy combiner and the ranker.

  Conventions of the model.
  \<^item> A Python \<open>float\<close> is a \<open>pyfloat\<close>: a finite real number, an infinity or a NaN.
    Arithmetic on finite floats is exact: there is no rounding. The conversions that
    overflow (\<open>float\<close> of a large int, \<open>int\<close> of an infinity) raise OverflowError as in
    CPython. A NaN carries the identity of its object, by which a dict finds it.
  \<^item> A Python \<open>int\<close> is an \<open>int\<close>; a count that starts at 0 and is only incremented is a
    \<open>nat\<close>.
  \<^item> A \<open>date\<close> is its proleptic Gregorian ordinal, so \<open>(due - today).days\<close> is the
    difference of two integers.
  \<^item> A \<open>str\<close> is a \<open>string\<close> (ASCII).
  \<^item> A raw value is what \<open>json.loads\<close> yields (None, a bool, an int, a float, a str, a
    list, a dict with string keys) or a \<open>date\<close>; other Python objects are not values of
    the model.
  \<^item> The rationale strings that the scorers return beside each score are left out: nothing
    in the ranking reads them.
  \<^item> The recursion of the cycle detector is not bounded by an interpreter stack limit.
  \<^item> The functions of the Python runtime that read or print text (\<open>str\<close> of a value that is
    not a string, \<open>float\<close> and \<open>int\<close> of a string, \<open>strptime\<close>, \<open>isoformat\<close>) and the
    rounding \<open>round(x, 2)\<close> are parameters of the model, collected in the record \<open>pylib\<close>:
    every general theorem holds whatever they compute.
\<close>

subsection \<open>Values of the raw input\<close>

type_synonym date = int

datatype pyfloat = Fin real | PosInf | NegInf | NaN nat

datatype pyval =
    PNone
  | PBool bool
  | PInt int
  | PFloat pyfloat
  | PStr string
  | PDate date
  | PList "pyval list"
  | PDict "(string \<times> pyval) list"

text \<open>The exceptions that leave \<open>rank_tasks\<close>. \<open>StrategyError(msg)\<close> is raised by the
  combiner. The runtime raises \<open>TypeError\<close> when a value that cannot be hashed (a list, a
  dict) is used as a dictionary key, \<open>OverflowError\<close> when \<open>float\<close> is applied to an int
  too large for a float or \<open>int\<close> to an infinity, and \<open>ValueError\<close> when \<open>str\<close> fails (an
  int of more digits than the interpreter converts).\<close>

datatype error = StrategyError string | TypeError | OverflowError | ValueError

text \<open>\<open>str_repr v\<close> is \<open>str(v)\<close> for a value that is not a string, None where it raises;
  \<open>float_of_str\<close>, \<open>int_of_str\<close> and \<open>strptime_ymd\<close> are \<open>float(s)\<close>, \<open>int(s)\<close> and
  \<open>datetime.strptime(s, "%Y-%m-%d").date()\<close>, None where they raise; \<open>round2 x\<close> is
  \<open>round(x, 2)\<close>.\<close>

record pylib =
  str_repr :: "pyval \<Rightarrow> string option"
  float_of_str :: "string \<Rightarrow> pyfloat option"
  int_of_str :: "string \<Rightarrow> int option"
  strptime_ymd :: "string \<Rightarrow> date option"
  isoformat :: "date \<Rightarrow> string"
  round2 :: "real \<Rightarrow> real"

text \<open>Truth value of a Python object, as \<open>not\<close>, \<open>or\<close> and \<open>if\<close> read it.\<close>

fun truthy :: "pyval \<Rightarrow> bool" where
  "truthy PNone = False"
| "truthy (PBool b) = b"
| "truthy (PInt i) = (i \<noteq> 0)"
| "truthy (PFloat f) = (f \<noteq> Fin 0)"
| "truthy (PStr s) = (s \<noteq> [])"
| "truthy (PDate d) = True"
| "truthy (PList xs) = (xs \<noteq> [])"
| "truthy (PDict kvs) = (kvs \<noteq> [])"

definition py_or :: "pyval \<Rightarrow> pyval \<Rightarrow> pyval" where
  "py_or a b = (if truthy a then a else b)"

text \<open>A dict with string keys is the list of its items, each key once. \<open>dict_get\<close> is
  \<open>d.get(k)\<close> and \<open>d.get(k, default)\<close>.\<close>

definition dict_get :: "(string \<times> pyval) list \<Rightarrow> string \<Rightarrow> pyval \<Rightarrow> pyval" where
  "dict_get kvs k dflt = (case map_of kvs k of None \<Rightarrow> dflt | Some v \<Rightarrow> v)"

text \<open>\<open>str(v)\<close>: a string is returned as it is; None where \<open>str\<close> raises.\<close>

definition py_str :: "pylib \<Rightarrow> pyval \<Rightarrow> string option" where
  "py_str L v = (case v of PStr s \<Rightarrow> Some s | _ \<Rightarrow> str_repr L v)"

text \<open>\<open>float(i)\<close> of an int: CPython raises OverflowError when the int rounds to a float
  beyond the largest one, that is from \<open>2 ^ 1024 - 2 ^ 970\<close> on.\<close>

definition float_int_limit :: int where
  "float_int_limit = 2 ^ 1024 - 2 ^ 970"

definition int_to_float :: "int \<Rightarrow> error + real" where
  "int_to_float i = (if \<bar>i\<bar> < float_int_limit then Inr (of_int i) else Inl OverflowError)"

text \<open>\<open>float(v)\<close> and \<open>int(v)\<close> inside \<open>try ... except (TypeError, ValueError)\<close>, as
  \<open>normalise_tasks\<close> calls them: \<open>Inr None\<close> where one of these two is raised and caught,
  \<open>Inl OverflowError\<close> where OverflowError is raised, which the handler does not catch.\<close>

definition py_float :: "pylib \<Rightarrow> pyval \<Rightarrow> error + pyfloat option" where
  "py_float L v =
     (case v of
        PBool b \<Rightarrow> Inr (Some (Fin (if b then 1 else 0)))
      | PInt i \<Rightarrow> (case int_to_float i of Inl e \<Rightarrow> Inl e | Inr x \<Rightarrow> Inr (Some (Fin x)))
      | PFloat f \<Rightarrow> Inr (Some f)
      | PStr s \<Rightarrow> Inr (float_of_str L s)
      | _ \<Rightarrow> Inr None)"

definition py_int :: "pylib \<Rightarrow> pyval \<Rightarrow> error + int option" where
  "py_int L v =
     (case v of
        PBool b \<Rightarrow> Inr (Some (if b then 1 else 0))
      | PInt i \<Rightarrow> Inr (Some i)
      | PFloat f \<Rightarrow>
          (case f of
             Fin x \<Rightarrow> Inr (Some (if 0 \<le> x then \<lfloor>x\<rfloor> else \<lceil>x\<rceil>))
           | PosInf \<Rightarrow> Inl OverflowError
           | NegInf \<Rightarrow> Inl OverflowError
           | NaN n \<Rightarrow> Inr None)
      | PStr s \<Rightarrow> Inr (int_of_str L s)
      | _ \<Rightarrow> Inr None)"

text \<open>\<open>s.strip()\<close> and \<open>s.split(',')\<close>.\<close>

definition is_space :: "char \<Rightarrow> bool" where
  "is_space c = (let n = (of_char c :: nat) in (9 \<le> n \<and> n \<le> 13) \<or> (28 \<le> n \<and> n \<le> 32))"

definition strip :: "string \<Rightarrow> string" where
  "strip s = rev (dropWhile is_space (rev (dropWhile is_space s)))"

fun split_comma :: "string \<Rightarrow> string list" where
  "split_comma [] = [[]]"
| "split_comma (c # cs) =
     (if c = CHR '','' then [] # split_comma cs
      else (case split_comma cs of [] \<Rightarrow> [[c]] | w # ws \<Rightarrow> (c # w) # ws))"

subsection \<open>TaskInput and the normaliser\<close>

record TaskInput =
  task_id :: pyval
  title :: string
  due_date :: "date option"
  estimated_hours :: "pyfloat option"
  importance :: "int option"
  dependencies :: "pyval list"

text \<open>\<open>_parse_date\<close>: whatever \<open>str\<close> or \<open>strptime\<close> raises is caught.\<close>

definition parse_date :: "pylib \<Rightarrow> pyval \<Rightarrow> date option" where
  "parse_date L v =
     (if \<not> truthy v then None
      else (case v of
              PDate d \<Rightarrow> Some d
            | _ \<Rightarrow> (case py_str L v of None \<Rightarrow> None | Some s \<Rightarrow> strptime_ymd L s)))"

definition clamp :: "real \<Rightarrow> real \<Rightarrow> real \<Rightarrow> real" where
  "clamp v min_value max_value = max min_value (min max_value v)"

text \<open>The body of the loop of \<open>normalise_tasks\<close> for one record at position \<open>idx\<close>, in
  the order of its statements: the first exception that is not caught ends the call.\<close>

definition normalise_record :: "pylib \<Rightarrow> int \<Rightarrow> (string \<times> pyval) list \<Rightarrow> error + TaskInput" where
  "normalise_record L idx raw =
     (let tid = dict_get raw ''id'' (PInt idx) in
      case py_str L (py_or (dict_get raw ''title'' PNone) (PStr ''Untitled task'')) of
        None \<Rightarrow> Inl ValueError
      | Some s \<Rightarrow>
          (let t0 = strip s;
               ttl = (if t0 \<noteq> [] then t0 else ''Untitled task'');
               due = parse_date L (dict_get raw ''due_date'' PNone);
               est_hours_raw = dict_get raw ''estimated_hours'' PNone
           in case (if est_hours_raw \<noteq> PNone then py_float L est_hours_raw else Inr None) of
                Inl e \<Rightarrow> Inl e
              | Inr est \<Rightarrow>
                  (let imp_raw = dict_get raw ''importance'' PNone
                   in case (if imp_raw \<noteq> PNone then py_int L imp_raw else Inr None) of
                        Inl e \<Rightarrow> Inl e
                      | Inr imp \<Rightarrow>
                          (let deps_raw = py_or (dict_get raw ''dependencies'' PNone) (PList []);
                               deps = (case deps_raw of
                                         PStr d \<Rightarrow>
                                           map PStr (filter (\<lambda>d. d \<noteq> [])
                                                       (map strip (split_comma d)))
                                       | PList ds \<Rightarrow> ds
                                       | _ \<Rightarrow> [])
                           in Inr \<lparr>task_id = tid, title = ttl, due_date = due,
                                   estimated_hours = est, importance = imp,
                                   dependencies = deps\<rparr>))))"

text \<open>\<open>enumerate(raw_tasks, start=1)\<close>: the index advances on every entry, also on the
  entries that are skipped for not being a dict.\<close>

fun normalise_from :: "pylib \<Rightarrow> int \<Rightarrow> pyval list \<Rightarrow> error + TaskInput list" where
  "normalise_from L idx [] = Inr []"
| "normalise_from L idx (raw # rest) =
     (case raw of
        PDict kvs \<Rightarrow>
          (case normalise_record L idx kvs of
             Inl e \<Rightarrow> Inl e
           | Inr t \<Rightarrow>
               (case normalise_from L (idx + 1) rest of
                  Inl e \<Rightarrow> Inl e
                | Inr ts \<Rightarrow> Inr (t # ts)))
      | _ \<Rightarrow> normalise_from L (idx + 1) rest)"

definition normalise_tasks :: "pylib \<Rightarrow> pyval list \<Rightarrow> error + TaskInput list" where
  "normalise_tasks L raw_tasks = normalise_from L 1 raw_tasks"

subsection \<open>Factor scorers\<close>

definition urgency_score :: "date option \<Rightarrow> date \<Rightarrow> real" where
  "urgency_score due today =
     (case due of
        None \<Rightarrow> 50
      | Some d \<Rightarrow>
          (let delta_days = d - today in
           if delta_days < 0 then 100
           else if delta_days = 0 then 95
           else if delta_days \<le> 30 then 30 + of_int (30 - delta_days) * (60 / 30)
           else 20))"

text \<open>\<open>float(importance)\<close> is outside any \<open>try\<close>: its OverflowError leaves the scorer.\<close>

definition importance_score :: "int option \<Rightarrow> error + real" where
  "importance_score imp =
     (case imp of
        None \<Rightarrow> Inr 50
      | Some i \<Rightarrow>
          (case int_to_float i of
             Inl e \<Rightarrow> Inl e
           | Inr x \<Rightarrow> Inr (clamp x 1 10 / 10 * 100)))"

text \<open>\<open>max(0.0, x)\<close> is \<open>x\<close> where \<open>0.0 < x\<close> and \<open>0.0\<close> otherwise, also for a NaN.\<close>

definition float_max0 :: "pyfloat \<Rightarrow> pyfloat" where
  "float_max0 f =
     (case f of Fin x \<Rightarrow> Fin (max 0 x) | PosInf \<Rightarrow> PosInf | NegInf \<Rightarrow> Fin 0 | NaN n \<Rightarrow> Fin 0)"

text \<open>\<open>_effort_score\<close>. After \<open>max(0.0, ...)\<close> the hours are finite or plus infinity; for
  plus infinity every test of the chain (\<open>h == 0\<close>, \<open>h <= 1\<close>, \<open>h <= 4\<close>, \<open>h <= 8\<close>) is
  false.\<close>

definition effort_score :: "pyfloat option \<Rightarrow> real" where
  "effort_score hours =
     (case hours of
        None \<Rightarrow> 50
      | Some f \<Rightarrow>
          (case float_max0 f of
             Fin h \<Rightarrow>
               (if h = 0 then 100
                else if h \<le> 1 then 95
                else if h \<le> 4 then 95 - (h - 1) * (35 / 3)
                else if h \<le> 8 then 60 - (h - 4) * (30 / 4)
                else 20)
           | _ \<Rightarrow> 20))"

subsection \<open>Strategy combiner\<close>

definition compute_score_for_strategy ::
  "real \<Rightarrow> real \<Rightarrow> real \<Rightarrow> real \<Rightarrow> string \<Rightarrow> error + real" where
  "compute_score_for_strategy urgency imp effort dependency strategy0 =
     (let strategy = (if strategy0 \<noteq> [] then strategy0 else ''smart_balance'') in
      if strategy = ''fastest_wins'' then
        Inr (0.60 * effort + 0.25 * imp + 0.15 * urgency)
      else if strategy = ''high_impact'' then
        Inr (0.70 * imp + 0.20 * urgency + 0.10 * dependency)
      else if strategy = ''deadline_driven'' then
        Inr (0.70 * urgency + 0.20 * imp + 0.10 * dependency)
      else if strategy = ''smart_balance'' then
        Inr (0.35 * imp + 0.30 * urgency + 0.20 * dependency + 0.15 * effort)
      else Inl (StrategyError (''Unknown strategy: '' @ strategy)))"

subsection \<open>Dictionary keys\<close>

text \<open>
  A Python dict finds a key by hash and by identity or \<open>==\<close>. \<open>py_key v\<close> is the class of
  \<open>v\<close> under this relation among hashable values (\<open>True == 1 == 1.0\<close>; a NaN is equal to
  nothing, and found only as the same object), and \<open>None\<close> where \<open>hash(v)\<close> raises
  TypeError. A dict whose iteration order is read is an association list in insertion
  order; one that is only looked up is a map.
\<close>

datatype pykey = KNone | KNum real | KInf bool | KNaN nat | KStr string | KDate date

fun py_key :: "pyval \<Rightarrow> pykey option" where
  "py_key PNone = Some KNone"
| "py_key (PBool b) = Some (KNum (if b then 1 else 0))"
| "py_key (PInt i) = Some (KNum (of_int i))"
| "py_key (PFloat (Fin x)) = Some (KNum x)"
| "py_key (PFloat PosInf) = Some (KInf True)"
| "py_key (PFloat NegInf) = Some (KInf False)"
| "py_key (PFloat (NaN n)) = Some (KNaN n)"
| "py_key (PStr s) = Some (KStr s)"
| "py_key (PDate d) = Some (KDate d)"
| "py_key (PList xs) = None"
| "py_key (PDict kvs) = None"

type_synonym 'k graph = "('k \<times> 'k list) list"

definition graph_setdefault :: "'k graph \<Rightarrow> 'k \<Rightarrow> 'k list \<Rightarrow> 'k graph" where
  "graph_setdefault g k v = (if k \<in> fst ` set g then g else g @ [(k, v)])"

definition count_setdefault :: "('k \<rightharpoonup> nat) \<Rightarrow> 'k \<Rightarrow> nat \<Rightarrow> ('k \<rightharpoonup> nat)" where
  "count_setdefault dc k v = (if dc k = None then dc(k \<mapsto> v) else dc)"

definition count_get :: "('k \<rightharpoonup> nat) \<Rightarrow> 'k \<Rightarrow> nat \<Rightarrow> nat" where
  "count_get dc k dflt = (case dc k of None \<Rightarrow> dflt | Some c \<Rightarrow> c)"

subsection \<open>Dependency graph builder\<close>

text \<open>First loop of \<open>_build_graph\<close>: one node and one zero count for every id that is not None.\<close>

fun build_graph_nodes ::
  "TaskInput list \<Rightarrow> pykey graph \<times> (pykey \<rightharpoonup> nat) \<Rightarrow> error + pykey graph \<times> (pykey \<rightharpoonup> nat)" where
  "build_graph_nodes [] (graph, dependents_count) = Inr (graph, dependents_count)"
| "build_graph_nodes (t # ts) (graph, dependents_count) =
     (if task_id t = PNone then build_graph_nodes ts (graph, dependents_count)
      else (case py_key (task_id t) of
              None \<Rightarrow> Inl TypeError
            | Some k \<Rightarrow>
                build_graph_nodes ts
                  (graph_setdefault graph k [], count_setdefault dependents_count k 0)))"

text \<open>Inner loop: \<open>for dep in t.dependencies\<close>. The graph is not changed while it runs.\<close>

fun build_graph_deps ::
  "pykey graph \<Rightarrow> pyval list \<Rightarrow> pykey list \<times> (pykey \<rightharpoonup> nat) \<Rightarrow> error + pykey list \<times> (pykey \<rightharpoonup> nat)" where
  "build_graph_deps graph [] (deps, dependents_count) = Inr (deps, dependents_count)"
| "build_graph_deps graph (dep # rest) (deps, dependents_count) =
     (case py_key dep of
        None \<Rightarrow> Inl TypeError
      | Some k \<Rightarrow>
          (if k \<in> fst ` set graph then
             build_graph_deps graph rest
               (deps @ [k], dependents_count(k \<mapsto> count_get dependents_count k 0 + 1))
           else build_graph_deps graph rest (deps, dependents_count)))"

text \<open>Second loop: the edges of every task whose id is not None.\<close>

fun build_graph_edges ::
  "TaskInput list \<Rightarrow> pykey graph \<times> (pykey \<rightharpoonup> nat) \<Rightarrow> error + pykey graph \<times> (pykey \<rightharpoonup> nat)" where
  "build_graph_edges [] (graph, dependents_count) = Inr (graph, dependents_count)"
| "build_graph_edges (t # ts) (graph, dependents_count) =
     (if task_id t = PNone then build_graph_edges ts (graph, dependents_count)
      else (case build_graph_deps graph (dependencies t) ([], dependents_count) of
              Inl e \<Rightarrow> Inl e
            | Inr (deps, dependents_count') \<Rightarrow>
                (case py_key (task_id t) of
                   None \<Rightarrow> Inl TypeError
                 | Some k \<Rightarrow>
                     build_graph_edges ts (AList.update k deps graph, dependents_count'))))"

definition build_graph :: "TaskInput list \<Rightarrow> error + pykey graph \<times> (pykey \<rightharpoonup> nat)" where
  "build_graph tasks =
     (case build_graph_nodes tasks ([], Map.empty) of
        Inl e \<Rightarrow> Inl e
      | Inr st \<Rightarrow> build_graph_edges tasks st)"

subsection \<open>Cycle detector\<close>

record 'k dfs =
  visited :: "'k set"
  stack :: "'k set"
  in_cycle :: "'k set"

text \<open>\<open>graph.get(node, [])\<close>\<close>

definition neighbors :: "'k graph \<Rightarrow> 'k \<Rightarrow> 'k list" where
  "neighbors g node = (case map_of g node of None \<Rightarrow> [] | Some ns \<Rightarrow> ns)"

text \<open>The nested function \<open>visit\<close> and its loop over the neighbours; the three sets it
  closes over are passed and returned.\<close>

function visit :: "'k graph \<Rightarrow> 'k \<Rightarrow> 'k dfs \<Rightarrow> 'k dfs"
  and visit_each :: "'k graph \<Rightarrow> 'k list \<Rightarrow> 'k dfs \<Rightarrow> 'k dfs" where
  "visit g node s =
     (if node \<in> stack s then s\<lparr>in_cycle := in_cycle s \<union> stack s\<rparr>
      else if node \<in> visited s then s
      else (let s1 = s\<lparr>visited := insert node (visited s), stack := insert node (stack s)\<rparr>;
                s2 = visit_each g (neighbors g node) s1
            in s2\<lparr>stack := stack s2 - {node}\<rparr>))"
| "visit_each g [] s = s"
| "visit_each g (n # ns) s = visit_each g ns (visit g n s)"
  by pat_completeness auto

text \<open>The recursion ends: a call that goes deeper has marked one more node of the graph as
  visited, and the visited set never shrinks.\<close>

lemma visit_dom_visited:
  "visit_visit_each_dom (Inl (g, node, s)) \<Longrightarrow> visited s \<subseteq> visited (visit g node s)"
  "visit_visit_each_dom (Inr (g, ns, s)) \<Longrightarrow> visited s \<subseteq> visited (visit_each g ns s)"
proof (induction g node s and g ns s rule: visit_visit_each.pinduct)
  case (1 g node s)
  then show ?case
    by (auto simp: visit.psimps Let_def)
next
  case (2 g s)
  then show ?case by (simp add: visit_each.psimps)
next
  case (3 g n ns s)
  then show ?case by (auto simp: visit_each.psimps)
qed

termination visit
proof (relation "inv_image (less_than <*lex*> less_than)
    (\<lambda>x. case x of
       Inl (g, node, s) \<Rightarrow> (card (fst ` set g - visited s), 1)
     | Inr (g, ns, s) \<Rightarrow> (card (fst ` set g - visited s), 2 * length ns))", goal_cases)
  case 1
  show ?case by (intro wf_inv_image wf_lex_prod wf_less_than)
next
  case (2 g node s x)
  show ?case
  proof (cases "node \<in> fst ` set g")
    case True
    with 2 have "card (fst ` set g - insert node (visited s)) < card (fst ` set g - visited s)"
      by (intro psubset_card_mono) auto
    with 2 show ?thesis by simp
  next
    case False
    then have "neighbors g node = []"
      by (auto simp: neighbors_def map_of_eq_None_iff[symmetric] split: option.splits)
    moreover from False have "fst ` set g - insert node (visited s) = fst ` set g - visited s"
      by auto
    ultimately show ?thesis using 2 by simp
  qed
next
  case (3 g n ns s)
  then show ?case by simp
next
  case (4 g n ns s)
  have "card (fst ` set g - visited (visit g n s)) \<le> card (fst ` set g - visited s)"
    using visit_dom_visited(1)[OF 4] by (intro card_mono) auto
  then show ?case by auto
qed

declare visit.simps [simp del]

text \<open>\<open>for node in graph: if node not in visited: visit(node)\<close>\<close>

fun detect_loop :: "'k graph \<Rightarrow> 'k list \<Rightarrow> 'k dfs \<Rightarrow> 'k dfs" where
  "detect_loop g [] s = s"
| "detect_loop g (node # nodes) s =
     detect_loop g nodes (if node \<notin> visited s then visit g node s else s)"

definition detect_cycles :: "'k graph \<Rightarrow> 'k set" where
  "detect_cycles g =
     in_cycle (detect_loop g (map fst g) \<lparr>visited = {}, stack = {}, in_cycle = {}\<rparr>)"

subsection \<open>Dependency scorer\<close>

definition dependency_score :: "TaskInput \<Rightarrow> (pykey \<rightharpoonup> nat) \<Rightarrow> pykey set \<Rightarrow> error + real" where
  "dependency_score task dependents_count cyc =
     (if task_id task = PNone then Inr 40
      else (case py_key (task_id task) of
              None \<Rightarrow> Inl TypeError
            | Some k \<Rightarrow>
                (let dependents = count_get dependents_count k 0;
                     base = 40 + min (real dependents * 15) 45
                 in Inr (if k \<in> cyc then base * 0.75 else base))))"

subsection \<open>Ranker\<close>

text \<open>The dict that \<open>rank_tasks\<close> returns for one task, without its explanation.\<close>

record ScoredTask =
  out_id :: pyval
  out_title :: string
  out_due_date :: "string option"
  out_estimated_hours :: "pyfloat option"
  out_importance :: "int option"
  out_dependencies :: "pyval list"
  out_score :: real

text \<open>The body of the loop of \<open>rank_tasks\<close> for one task.\<close>

definition score_task ::
  "pylib \<Rightarrow> date \<Rightarrow> string \<Rightarrow> (pykey \<rightharpoonup> nat) \<Rightarrow> pykey set \<Rightarrow> TaskInput \<Rightarrow> error + ScoredTask" where
  "score_task L today strategy dependents_count cyc t =
     (let urgency = urgency_score (due_date t) today in
      case importance_score (importance t) of
        Inl e \<Rightarrow> Inl e
      | Inr imp \<Rightarrow>
          (let effort = effort_score (estimated_hours t) in
           case dependency_score t dependents_count cyc of
             Inl e \<Rightarrow> Inl e
           | Inr dependency \<Rightarrow>
               (case compute_score_for_strategy urgency imp effort dependency strategy of
                  Inl e \<Rightarrow> Inl e
                | Inr score \<Rightarrow>
                    Inr \<lparr>out_id = task_id t, out_title = title t,
                         out_due_date = map_option (isoformat L) (due_date t),
                         out_estimated_hours = estimated_hours t,
                         out_importance = importance t,
                         out_dependencies = dependencies t,
                         out_score = round2 L score\<rparr>)))"

fun score_tasks ::
  "pylib \<Rightarrow> date \<Rightarrow> string \<Rightarrow> (pykey \<rightharpoonup> nat) \<Rightarrow> pykey set \<Rightarrow> TaskInput list
     \<Rightarrow> error + ScoredTask list" where
  "score_tasks L today strategy dependents_count cyc [] = Inr []"
| "score_tasks L today strategy dependents_count cyc (t # ts) =
     (case score_task L today strategy dependents_count cyc t of
        Inl e \<Rightarrow> Inl e
      | Inr r \<Rightarrow>
          (case score_tasks L today strategy dependents_count cyc ts of
             Inl e \<Rightarrow> Inl e
           | Inr rs \<Rightarrow> Inr (r # rs)))"

text \<open>The part of \<open>rank_tasks\<close> before the sort: the list \<open>results\<close>.\<close>

definition scored_tasks :: "pylib \<Rightarrow> date \<Rightarrow> pyval list \<Rightarrow> string \<Rightarrow> error + ScoredTask list" where
  "scored_tasks L today raw_tasks strategy =
     (case normalise_tasks L raw_tasks of
        Inl e \<Rightarrow> Inl e
      | Inr tasks \<Rightarrow>
          (case build_graph tasks of
             Inl e \<Rightarrow> Inl e
           | Inr (graph, dependents_count) \<Rightarrow>
               (let cyc = detect_cycles graph in
                score_tasks L today strategy dependents_count cyc tasks)))"

text \<open>The nested function \<open>sort_key\<close> of \<open>rank_tasks\<close>, with its local variables
  \<open>due_weight\<close> and \<open>importance_val\<close>. Python compares the tuples lexicographically, and
  the float 99999.0 with the integer day counts by value.\<close>

definition due_weight :: "pylib \<Rightarrow> date \<Rightarrow> ScoredTask \<Rightarrow> int" where
  "due_weight L today item =
     (let due_str = py_or (case out_due_date item of None \<Rightarrow> PNone | Some s \<Rightarrow> PStr s) PNone;
          due = parse_date L due_str
      in case due of None \<Rightarrow> 99999 | Some d \<Rightarrow> d - today)"

definition importance_val :: "ScoredTask \<Rightarrow> int" where
  "importance_val item =
     (case out_importance item of None \<Rightarrow> 0 | Some i \<Rightarrow> if i \<noteq> 0 then i else 0)"

definition rank_sort_key :: "pylib \<Rightarrow> date \<Rightarrow> ScoredTask \<Rightarrow> real \<times> int \<times> int" where
  "rank_sort_key L today item =
     (let score = (if out_score item \<noteq> 0 then out_score item else 0)
      in (- score, due_weight L today item, - importance_val item))"

text \<open>\<open>list.sort(key=...)\<close> is a stable sort; \<open>sort_key\<close> of the list library is the
  stable sort by a key.\<close>

definition rank_tasks :: "pylib \<Rightarrow> date \<Rightarrow> pyval list \<Rightarrow> string \<Rightarrow> error + ScoredTask list" where
  "rank_tasks L today raw_tasks strategy =
     (case scored_tasks L today raw_tasks strategy of
        Inl e \<Rightarrow> Inl e
      | Inr results \<Rightarrow> Inr (sort_key (rank_sort_key L today) results))"

subsection \<open>Notions used to state the properties\<close>

text \<open>\<open>isinstance(raw, dict)\<close>\<close>

fun is_record :: "pyval \<Rightarrow> bool" where
  "is_record (PDict kvs) = True"
| "is_record v = False"

text \<open>The records on which the body of the normaliser's loop raises nothing: \<open>str\<close> of the
  title does not fail, the estimated hours are not an int beyond the float range, and the
  importance is not an infinite float.\<close>

definition title_ok :: "pylib \<Rightarrow> (string \<times> pyval) list \<Rightarrow> bool" where
  "title_ok L raw =
     (py_str L (py_or (dict_get raw ''title'' PNone) (PStr ''Untitled task'')) \<noteq> None)"

definition hours_ok :: "(string \<times> pyval) list \<Rightarrow> bool" where
  "hours_ok raw =
     (case dict_get raw ''estimated_hours'' PNone of
        PInt i \<Rightarrow> \<bar>i\<bar> < float_int_limit
      | _ \<Rightarrow> True)"

definition importance_ok :: "(string \<times> pyval) list \<Rightarrow> bool" where
  "importance_ok raw =
     (dict_get raw ''importance'' PNone \<noteq> PFloat PosInf
      \<and> dict_get raw ''importance'' PNone \<noteq> PFloat NegInf)"

definition record_ok :: "pylib \<Rightarrow> (string \<times> pyval) list \<Rightarrow> bool" where
  "record_ok L raw = (title_ok L raw \<and> hours_ok raw \<and> importance_ok raw)"

definition normalise_input_ok :: "pylib \<Rightarrow> pyval list \<Rightarrow> bool" where
  "normalise_input_ok L raw_tasks =
     (\<forall>raw \<in> set raw_tasks. \<forall>kvs. raw = PDict kvs \<longrightarrow> record_ok L kvs)"

text \<open>The tasks whose importance \<open>float\<close> converts: the importance scorer raises nothing.\<close>

definition importance_in_range :: "TaskInput list \<Rightarrow> bool" where
  "importance_in_range tasks =
     (\<forall>t \<in> set tasks. \<forall>i. importance t = Some i \<longrightarrow> \<bar>i\<bar> < float_int_limit)"

text \<open>A value can be a dictionary key.\<close>

definition hashable :: "pyval \<Rightarrow> bool" where
  "hashable v = (py_key v \<noteq> None)"

text \<open>The inputs on which \<open>build_graph\<close> raises no TypeError: the id of every task that has
  one, and every entry of such a task's dependencies, is hashable.\<close>

definition graph_input_ok :: "TaskInput list \<Rightarrow> bool" where
  "graph_input_ok tasks =
     (\<forall>t \<in> set tasks. task_id t \<noteq> PNone \<longrightarrow>
        hashable (task_id t) \<and> (\<forall>d \<in> set (dependencies t). hashable d))"

text \<open>The keys of the tasks that have an id, and the number of times a key occurs in the
  dependencies lists of these tasks.\<close>

definition task_keys :: "TaskInput list \<Rightarrow> pykey set" where
  "task_keys tasks = {k. \<exists>t \<in> set tasks. task_id t \<noteq> PNone \<and> py_key (task_id t) = Some k}"

definition occurrences :: "pyval list \<Rightarrow> pykey \<Rightarrow> nat" where
  "occurrences deps k = length (filter (\<lambda>d. py_key d = Some k) deps)"

definition dependency_occurrences :: "TaskInput list \<Rightarrow> pykey \<Rightarrow> nat" where
  "dependency_occurrences tasks k =
     occurrences (concat (map dependencies (filter (\<lambda>t. task_id t \<noteq> PNone) tasks))) k"

text \<open>The state of the cycle detector when \<open>visit\<close> has marked a fresh node.\<close>

definition enter :: "'k \<Rightarrow> 'k dfs \<Rightarrow> 'k dfs" where
  "enter node s = s\<lparr>visited := insert node (visited s), stack := insert node (stack s)\<rparr>"

text \<open>Three relations between the state before and after a call of \<open>visit\<close>. A node first
  visited during the call that has a neighbour on the stack, or is its own neighbour, is
  flagged together with the stack; every neighbour of a node first visited during the call
  is visited when the call returns; two nodes that are neighbours of each other, neither
  visited before, are both flagged.\<close>

definition flags_back_edges :: "'k graph \<Rightarrow> 'k dfs \<Rightarrow> 'k dfs \<Rightarrow> bool" where
  "flags_back_edges g s s' \<longleftrightarrow>
     (\<forall>x \<in> visited s' - visited s. \<forall>y \<in> set (neighbors g x).
        y \<in> insert x (stack s) \<longrightarrow> insert x (stack s) \<subseteq> in_cycle s')"

definition closes_new :: "'k graph \<Rightarrow> 'k dfs \<Rightarrow> 'k dfs \<Rightarrow> bool" where
  "closes_new g s s' \<longleftrightarrow>
     (\<forall>x \<in> visited s' - visited s. set (neighbors g x) \<subseteq> visited s')"

definition flags_mutual :: "'k graph \<Rightarrow> 'k dfs \<Rightarrow> 'k dfs \<Rightarrow> bool" where
  "flags_mutual g s s' \<longleftrightarrow>
     (\<forall>x \<in> visited s' - visited s. \<forall>y \<in> set (neighbors g x).
        x \<in> set (neighbors g y) \<and> y \<notin> visited s \<longrightarrow> x \<in> in_cycle s' \<and> y \<in> in_cycle s')"

text \<open>The sort keys as the specification words them, read off a task: days until due with
  99999 for a task without a due date, and the importance with 0 for a missing one.\<close>

definition days_until_due_key :: "date \<Rightarrow> TaskInput \<Rightarrow> int" where
  "days_until_due_key today t = (case due_date t of None \<Rightarrow> 99999 | Some d \<Rightarrow> d - today)"

definition importance_key :: "TaskInput \<Rightarrow> int" where
  "importance_key t = (case importance t of None \<Rightarrow> 0 | Some i \<Rightarrow> i)"

subsection \<open>The specification's tables\<close>

text \<open>The four strategy names, and the weight table of the specification in the order
  (importance, urgency, effort, dependency). The code has no such table: its weights are
  the literals of \<open>compute_score_for_strategy\<close>.\<close>

definition recognized_strategies :: "string set" where
  "recognized_strategies =
     {''fastest_wins'', ''high_impact'', ''deadline_driven'', ''smart_balance''}"

definition spec_weights :: "string \<Rightarrow> real \<times> real \<times> real \<times> real" where
  "spec_weights strategy =
     (if strategy = ''fastest_wins'' then (0.25, 0.15, 0.60, 0)
      else if strategy = ''high_impact'' then (0.70, 0.20, 0, 0.10)
      else if strategy = ''deadline_driven'' then (0.20, 0.70, 0, 0.10)
      else (0.35, 0.30, 0.15, 0.20))"

subsection \<open>An instance of the runtime parameters\<close>

text \<open>
  \<open>example_lib\<close> is used to evaluate the model on concrete inputs. It reads decimal
  integers and dates written \<open>YYYY-MM-DD\<close>, prints None, booleans, integers and dates, and
  rounds an exact number to the nearest hundredth, a tie to the even one. The general
  theorems hold for every \<open>pylib\<close> and do not depend on it.
\<close>

definition digit_char :: "nat \<Rightarrow> char" where
  "digit_char n = ''0123456789'' ! n"

definition is_digit :: "char \<Rightarrow> bool" where
  "is_digit c = (48 \<le> (of_char c :: nat) \<and> (of_char c :: nat) \<le> 57)"

fun dec_str :: "nat \<Rightarrow> string" where
  "dec_str n = (if n < 10 then [digit_char n] else dec_str (n div 10) @ [digit_char (n mod 10)])"

definition dec_val :: "string \<Rightarrow> nat" where
  "dec_val s = foldl (\<lambda>acc c. 10 * acc + (of_char c - 48)) 0 s"

definition is_leap :: "int \<Rightarrow> bool" where
  "is_leap y = (y mod 4 = 0 \<and> (y mod 100 \<noteq> 0 \<or> y mod 400 = 0))"

definition days_in_month :: "int \<Rightarrow> int \<Rightarrow> int" where
  "days_in_month y m =
     (if m = 2 then (if is_leap y then 29 else 28)
      else if m \<in> {4, 6, 9, 11} then 30 else 31)"

definition ymd_to_ordinal :: "int \<Rightarrow> int \<Rightarrow> int \<Rightarrow> int" where
  "ymd_to_ordinal y0 m d =
     (let y = (if m \<le> 2 then y0 - 1 else y0);
          era = y div 400;
          yoe = y - era * 400;
          doy = (153 * (if 2 < m then m - 3 else m + 9) + 2) div 5 + d - 1;
          doe = yoe * 365 + yoe div 4 - yoe div 100 + doy
      in era * 146097 + doe - 305)"

definition ordinal_to_ymd :: "int \<Rightarrow> int \<times> int \<times> int" where
  "ordinal_to_ymd n =
     (let z = n + 305;
          era = z div 146097;
          doe = z - era * 146097;
          yoe = (doe - doe div 1460 + doe div 36524 - doe div 146096) div 365;
          doy = doe - (365 * yoe + yoe div 4 - yoe div 100);
          mp = (5 * doy + 2) div 153;
          d = doy - (153 * mp + 2) div 5 + 1;
          m = (if mp < 10 then mp + 3 else mp - 9);
          y = yoe + era * 400 + (if m \<le> 2 then 1 else 0)
      in (y, m, d))"

definition iso_format :: "date \<Rightarrow> string" where
  "iso_format n =
     (case ordinal_to_ymd n of (y, m, d) \<Rightarrow>
        [digit_char (nat y div 1000 mod 10), digit_char (nat y div 100 mod 10),
         digit_char (nat y div 10 mod 10), digit_char (nat y mod 10), CHR ''-'',
         digit_char (nat m div 10), digit_char (nat m mod 10), CHR ''-'',
         digit_char (nat d div 10), digit_char (nat d mod 10)])"

definition iso_parse :: "string \<Rightarrow> date option" where
  "iso_parse s =
     (case s of
        [y1, y2, y3, y4, a, m1, m2, b, d1, d2] \<Rightarrow>
          (if a = CHR ''-'' \<and> b = CHR ''-'' \<and> list_all is_digit [y1, y2, y3, y4, m1, m2, d1, d2]
           then (let y = int (dec_val [y1, y2, y3, y4]); m = int (dec_val [m1, m2]);
                     d = int (dec_val [d1, d2])
                 in if 1 \<le> y \<and> 1 \<le> m \<and> m \<le> 12 \<and> 1 \<le> d \<and> d \<le> days_in_month y m
                    then Some (ymd_to_ordinal y m d) else None)
           else None)
      | _ \<Rightarrow> None)"

definition dec_parse :: "string \<Rightarrow> int option" where
  "dec_parse s =
     (case s of
        [] \<Rightarrow> None
      | c # cs \<Rightarrow>
          (if c = CHR ''-'' then (if cs \<noteq> [] \<and> list_all is_digit cs then Some (- int (dec_val cs)) else None)
           else if list_all is_digit s then Some (int (dec_val s)) else None))"

definition round_half_even :: "real \<Rightarrow> real" where
  "round_half_even x =
     (let y = x * 100; f = \<lfloor>y\<rfloor>; r = y - of_int f in
      of_int (if r < 1 / 2 then f else if 1 / 2 < r then f + 1
              else if even f then f else f + 1) / 100)"

definition example_lib :: pylib where
  "example_lib =
     \<lparr>str_repr = (\<lambda>v. case v of
                      PNone \<Rightarrow> Some ''None''
                    | PBool b \<Rightarrow> Some (if b then ''True'' else ''False'')
                    | PInt i \<Rightarrow>
                        Some (if i < 0 then CHR ''-'' # dec_str (nat (- i)) else dec_str (nat i))
                    | PDate d \<Rightarrow> Some (iso_format d)
                    | _ \<Rightarrow> Some ''?''),
      float_of_str = (\<lambda>s. map_option (\<lambda>i. Fin (of_int i)) (dec_parse s)),
      int_of_str = dec_parse,
      strptime_ymd = iso_parse,
      isoformat = iso_format,
      round2 = round_half_even\<rparr>"

text \<open>The number of other tasks that depend on the key \<open>k\<close>: the tasks whose own key is
  not \<open>k\<close> and whose dependencies contain it.\<close>

definition dependents_of :: "TaskInput list \<Rightarrow> pykey \<Rightarrow> nat" where
  "dependents_of tasks k =
     length (filter (\<lambda>t. py_key (task_id t) \<noteq> Some k
                         \<and> Some k \<in> py_key ` set (dependencies t)) tasks)"

text \<open>The fields that a scored task copies from its task.\<close>

definition scored_from :: "pylib \<Rightarrow> TaskInput \<Rightarrow> ScoredTask \<Rightarrow> bool" where
  "scored_from L t r \<longleftrightarrow>
     out_id r = task_id t \<and> out_importance r = importance t
     \<and> out_due_date r = map_option (isoformat L) (due_date t)"

section \<open>Properties\<close>

subsection \<open>Factor scorers\<close>

text \<open>
  Claim C7. For a fixed reference date the urgency score never increases as the due date
  moves later, from overdue to the far future; a task without a due date scores 50; among
  overdue tasks the one that is overdue by more days scores at least as much as the other;
  from 1 to 30 days until due the score is \<open>30 + (30 - days) * 2\<close>, and beyond 30 days it
  is 20.
\<close>

theorem urgency_score_shape:
  "urgency_score None today = 50
   \<and> (\<forall>d1 d2. d1 \<le> d2 \<longrightarrow> urgency_score (Some d2) today \<le> urgency_score (Some d1) today)
   \<and> (\<forall>d1 d2. d1 < today \<and> d2 < today \<and> today - d1 \<le> today - d2
         \<longrightarrow> urgency_score (Some d1) today \<le> urgency_score (Some d2) today)
   \<and> (\<forall>d. 1 \<le> d - today \<and> d - today \<le> 30
         \<longrightarrow> urgency_score (Some d) today = 30 + (30 - real_of_int (d - today)) * 2)
   \<and> (\<forall>d. 30 < d - today \<longrightarrow> urgency_score (Some d) today = 20)"
  by (auto simp: urgency_score_def Let_def)

theorem urgency_score_shape_witness:
  "urgency_score (Some 110) 100 \<le> urgency_score (Some 105) 100
   \<and> urgency_score (Some 98) 100 \<le> urgency_score (Some 90) 100
   \<and> urgency_score (Some 110) 100 = 70
   \<and> urgency_score (Some 131) 100 = 20"
proof -
  note u = urgency_score_shape [of 100]
  from u have "urgency_score (Some 110) 100 \<le> urgency_score (Some 105) 100" by simp
  moreover from u have "(98::int) < 100 \<and> (90::int) < 100 \<and> (100::int) - 98 \<le> 100 - 90
      \<longrightarrow> urgency_score (Some 98) 100 \<le> urgency_score (Some 90) 100" by blast
  moreover from u have "(1::int) \<le> 110 - 100 \<and> (110::int) - 100 \<le> 30
      \<longrightarrow> urgency_score (Some 110) 100 = 30 + (30 - real_of_int (110 - 100)) * 2" by blast
  moreover from u have "(30::int) < 131 - 100 \<longrightarrow> urgency_score (Some 131) 100 = 20" by blast
  ultimately show ?thesis by simp
qed

text \<open>
  Claim C8. The effort score never increases with the hours (negative hours count as
  zero), and it has the piecewise shape: 100 at 0 hours, 95 on (0,1], the line from 95 down
  to 60 on (1,4], the line from 60 down to 30 on (4,8], and 20 above 8 hours. Hours that
  are plus infinity score 20, the least score; minus infinity and NaN count as zero hours.
\<close>

theorem effort_score_shape:
  "(\<forall>h1 h2. max 0 h1 \<le> max 0 h2
       \<longrightarrow> effort_score (Some (Fin h2)) \<le> effort_score (Some (Fin h1)))
   \<and> (\<forall>h. h \<le> 0 \<longrightarrow> effort_score (Some (Fin h)) = 100)
   \<and> (\<forall>h. 0 < h \<and> h \<le> 1 \<longrightarrow> effort_score (Some (Fin h)) = 95)
   \<and> (\<forall>h. 1 < h \<and> h \<le> 4 \<longrightarrow> effort_score (Some (Fin h)) = 95 - (h - 1) * (35 / 3))
   \<and> (\<forall>h. 4 < h \<and> h \<le> 8 \<longrightarrow> effort_score (Some (Fin h)) = 60 - (h - 4) * 7.5)
   \<and> (\<forall>h. 8 < h \<longrightarrow> effort_score (Some (Fin h)) = 20)
   \<and> effort_score (Some (Fin 1)) = 95 \<and> effort_score (Some (Fin 4)) = 60
   \<and> effort_score (Some (Fin 8)) = 30
   \<and> effort_score (Some PosInf) = 20 \<and> effort_score (Some NegInf) = 100
   \<and> (\<forall>n. effort_score (Some (NaN n)) = 100)
   \<and> (\<forall>h. effort_score (Some PosInf) \<le> effort_score (Some (Fin h)))"
proof -
  have mono: "effort_score (Some (Fin h2)) \<le> effort_score (Some (Fin h1))"
    if "max 0 h1 \<le> max 0 h2" for h1 h2
    using that unfolding effort_score_def float_max0_def option.case pyfloat.case
    by (simp split: if_splits add: max_def; argo)
  have rest: "(\<forall>h. h \<le> 0 \<longrightarrow> effort_score (Some (Fin h)) = 100)
   \<and> (\<forall>h. 0 < h \<and> h \<le> 1 \<longrightarrow> effort_score (Some (Fin h)) = 95)
   \<and> (\<forall>h. 1 < h \<and> h \<le> 4 \<longrightarrow> effort_score (Some (Fin h)) = 95 - (h - 1) * (35 / 3))
   \<and> (\<forall>h. 4 < h \<and> h \<le> 8 \<longrightarrow> effort_score (Some (Fin h)) = 60 - (h - 4) * 7.5)
   \<and> (\<forall>h. 8 < h \<longrightarrow> effort_score (Some (Fin h)) = 20)
   \<and> effort_score (Some (Fin 1)) = 95 \<and> effort_score (Some (Fin 4)) = 60
   \<and> effort_score (Some (Fin 8)) = 30"
    by (auto simp: effort_score_def float_max0_def max_def)
  have special: "effort_score (Some PosInf) = 20 \<and> effort_score (Some NegInf) = 100
   \<and> (\<forall>n. effort_score (Some (NaN n)) = 100)"
    by (simp add: effort_score_def float_max0_def)
  have least: "effort_score (Some PosInf) \<le> effort_score (Some (Fin h))" for h
    unfolding effort_score_def float_max0_def option.case pyfloat.case
    by (simp add: max_def)
  from mono rest special least show ?thesis by blast
qed

theorem effort_score_shape_witness:
  "effort_score (Some (Fin 6)) \<le> effort_score (Some (Fin 2))
   \<and> effort_score (Some (Fin (- 3))) = 100
   \<and> effort_score (Some (Fin (1 / 2))) = 95
   \<and> effort_score (Some (Fin 2)) = 250 / 3
   \<and> effort_score (Some (Fin 6)) = 45
   \<and> effort_score (Some (Fin 9)) = 20"
proof -
  note e = effort_score_shape
  from e have "max 0 (2::real) \<le> max 0 6
      \<longrightarrow> effort_score (Some (Fin 6)) \<le> effort_score (Some (Fin 2))"
    by blast
  moreover from e have "(- 3::real) \<le> 0 \<longrightarrow> effort_score (Some (Fin (- 3))) = 100" by blast
  moreover from e have "(0::real) < 1 / 2 \<and> (1 / 2::real) \<le> 1
      \<longrightarrow> effort_score (Some (Fin (1 / 2))) = 95" by blast
  moreover from e have "(1::real) < 2 \<and> (2::real) \<le> 4
      \<longrightarrow> effort_score (Some (Fin 2)) = 95 - (2 - 1) * (35 / 3)" by blast
  moreover from e have "(4::real) < 6 \<and> (6::real) \<le> 8
      \<longrightarrow> effort_score (Some (Fin 6)) = 60 - (6 - 4) * 7.5" by blast
  moreover from e have "(8::real) < 9 \<longrightarrow> effort_score (Some (Fin 9)) = 20" by blast
  ultimately show ?thesis by simp
qed

subsection \<open>Strategy combiner\<close>

text \<open>
  Claim C2. For each of the four recognized strategies the combiner returns the weighted
  sum of the four factor scores with the weights of the table, these weights sum to 1, and
  for factor scores in [0,100] the composite score is in [0,100] before rounding.
\<close>

theorem combiner_weights:
  assumes "strategy \<in> recognized_strategies"
  shows "case spec_weights strategy of (wi, wu, we, wd) \<Rightarrow>
           wi + wu + we + wd = 1
           \<and> (\<forall>u i e d. compute_score_for_strategy u i e d strategy
                  = Inr (wi * i + wu * u + we * e + wd * d))
           \<and> (\<forall>u i e d. 0 \<le> u \<and> u \<le> 100 \<and> 0 \<le> i \<and> i \<le> 100 \<and> 0 \<le> e \<and> e \<le> 100
                  \<and> 0 \<le> d \<and> d \<le> 100
                \<longrightarrow> (\<exists>c. compute_score_for_strategy u i e d strategy = Inr c
                       \<and> 0 \<le> c \<and> c \<le> 100))"
  using assms
  by (auto simp: recognized_strategies_def spec_weights_def compute_score_for_strategy_def)

theorem combiner_weights_witness:
  "''high_impact'' \<in> recognized_strategies
   \<and> compute_score_for_strategy 95 80 45 55 ''high_impact'' = Inr (805 / 10)
   \<and> (\<exists>c. compute_score_for_strategy 100 100 100 100 ''high_impact'' = Inr c
        \<and> 0 \<le> c \<and> c \<le> 100)"
proof -
  have h: "''high_impact'' \<in> recognized_strategies"
    by (simp add: recognized_strategies_def)
  have w: "spec_weights ''high_impact'' = (0.70, 0.20, 0, 0.10)"
    by (simp add: spec_weights_def)
  note c = combiner_weights [OF h, unfolded w prod.case]
  from c have "compute_score_for_strategy 95 80 45 55 ''high_impact''
      = Inr (0.70 * 80 + 0.20 * 95 + 0 * 45 + 0.10 * 55)" by blast
  moreover from c have "(0::real) \<le> 100 \<and> (100::real) \<le> 100 \<and> (0::real) \<le> 100
      \<and> (100::real) \<le> 100 \<and> (0::real) \<le> 100 \<and> (100::real) \<le> 100
      \<and> (0::real) \<le> 100 \<and> (100::real) \<le> 100
      \<longrightarrow> (\<exists>c. compute_score_for_strategy 100 100 100 100 ''high_impact'' = Inr c
             \<and> 0 \<le> c \<and> c \<le> 100)" by blast
  ultimately show ?thesis using h by simp
qed

subsection \<open>Normaliser\<close>

lemma normalise_from_append:
  "normalise_from L i (xs @ ys)
     = (case normalise_from L i xs of
          Inl e \<Rightarrow> Inl e
        | Inr ts \<Rightarrow>
            (case normalise_from L (i + int (length xs)) ys of
               Inl e \<Rightarrow> Inl e
             | Inr us \<Rightarrow> Inr (ts @ us)))"
  by (induction xs arbitrary: i) (auto split: pyval.splits sum.splits simp: algebra_simps)

lemma length_normalise_from:
  "normalise_from L i xs = Inr ts \<Longrightarrow> length ts = length (filter is_record xs)"
  by (induction xs arbitrary: i ts) (auto split: pyval.splits sum.splits)

lemma normalise_record_id_title:
  assumes "normalise_record L idx kvs = Inr t"
  shows "task_id t = dict_get kvs ''id'' (PInt idx)" and "title t \<noteq> []"
  using assms
  by (auto simp: normalise_record_def Let_def split: option.splits sum.splits if_splits)

lemma py_float_ok:
  "(\<exists>r. py_float L v = Inr r) \<longleftrightarrow> (case v of PInt i \<Rightarrow> \<bar>i\<bar> < float_int_limit | _ \<Rightarrow> True)"
  by (cases v) (auto simp: py_float_def int_to_float_def)

lemma py_int_ok:
  "(\<exists>r. py_int L v = Inr r) \<longleftrightarrow> v \<noteq> PFloat PosInf \<and> v \<noteq> PFloat NegInf"
proof (cases v)
  case (PFloat f)
  then show ?thesis by (cases f) (auto simp: py_int_def)
qed (auto simp: py_int_def)

lemma normalise_record_ok:
  "(\<exists>t. normalise_record L idx kvs = Inr t) \<longleftrightarrow> record_ok L kvs"
proof -
  have est: "(\<exists>r. (if dict_get kvs ''estimated_hours'' PNone \<noteq> PNone
                    then py_float L (dict_get kvs ''estimated_hours'' PNone) else Inr None) = Inr r)
      \<longleftrightarrow> hours_ok kvs"
    using py_float_ok[of L "dict_get kvs ''estimated_hours'' PNone"]
    by (auto simp: hours_ok_def)
  have imp: "(\<exists>r. (if dict_get kvs ''importance'' PNone \<noteq> PNone
                    then py_int L (dict_get kvs ''importance'' PNone) else Inr None) = Inr r)
      \<longleftrightarrow> importance_ok kvs"
    using py_int_ok[of L "dict_get kvs ''importance'' PNone"]
    by (auto simp: importance_ok_def)
  show ?thesis
  proof
    assume "\<exists>t. normalise_record L idx kvs = Inr t"
    then have "title_ok L kvs"
      and "\<exists>r. (if dict_get kvs ''estimated_hours'' PNone \<noteq> PNone
                then py_float L (dict_get kvs ''estimated_hours'' PNone) else Inr None) = Inr r"
      and "\<exists>r. (if dict_get kvs ''importance'' PNone \<noteq> PNone
                then py_int L (dict_get kvs ''importance'' PNone) else Inr None) = Inr r"
      by (auto simp: normalise_record_def title_ok_def Let_def
          split: option.splits sum.splits)
    with est imp show "record_ok L kvs" by (simp add: record_ok_def)
  next
    assume "record_ok L kvs"
    with est imp obtain s e i where "py_str L (py_or (dict_get kvs ''title'' PNone)
          (PStr ''Untitled task'')) = Some s"
      and "(if dict_get kvs ''estimated_hours'' PNone \<noteq> PNone
                then py_float L (dict_get kvs ''estimated_hours'' PNone) else Inr None) = Inr e"
      and "(if dict_get kvs ''importance'' PNone \<noteq> PNone
                then py_int L (dict_get kvs ''importance'' PNone) else Inr None) = Inr i"
      by (auto simp: record_ok_def title_ok_def)
    then show "\<exists>t. normalise_record L idx kvs = Inr t"
      by (simp add: normalise_record_def Let_def)
  qed
qed

lemma normalise_from_ok:
  "(\<exists>ts. normalise_from L i raws = Inr ts) \<longleftrightarrow> normalise_input_ok L raws"
proof (induction raws arbitrary: i)
  case Nil
  show ?case by (simp add: normalise_input_ok_def)
next
  case (Cons raw rest)
  have split: "normalise_input_ok L (raw # rest)
      \<longleftrightarrow> (\<forall>kvs. raw = PDict kvs \<longrightarrow> record_ok L kvs) \<and> normalise_input_ok L rest"
    by (auto simp: normalise_input_ok_def)
  show ?case
  proof (cases raw)
    case (PDict kvs)
    with Cons.IH[of "i + 1"] normalise_record_ok[of L i kvs] split show ?thesis
      by (auto split: sum.splits)
  qed (use Cons.IH[of "i + 1"] split in auto)
qed

lemma normalise_tasks_ok:
  "(\<exists>tasks. normalise_tasks L raw_tasks = Inr tasks) \<longleftrightarrow> normalise_input_ok L raw_tasks"
  by (simp add: normalise_tasks_def normalise_from_ok)

lemmas eval_normalise =
  normalise_tasks_def normalise_record_def dict_get_def py_or_def Let_def parse_date_def
  py_str_def strip_def is_space_def

text \<open>
  Claim C3, as the code has it. A record without an \<open>id\<close> field gets as its id its 1-based
  position in the raw input, where the entries skipped for not being records are counted
  too: when the normaliser returns, the record that follows \<open>pre\<close> in the input is the task
  number \<open>length (filter is_record pre)\<close> of the output (counted from 0) and its default id
  is \<open>length pre + 1\<close>. The normaliser returns on every input whose records convert without
  an exception.
\<close>

theorem normalise_default_id:
  "(normalise_input_ok L (pre @ PDict kvs # post)
      \<longrightarrow> (\<exists>tasks. normalise_tasks L (pre @ PDict kvs # post) = Inr tasks))
   \<and> (\<forall>tasks. normalise_tasks L (pre @ PDict kvs # post) = Inr tasks \<longrightarrow>
         length (filter is_record pre) < length tasks
         \<and> normalise_record L (int (length pre) + 1) kvs
             = Inr (tasks ! length (filter is_record pre))
         \<and> (map_of kvs ''id'' = None
              \<longrightarrow> task_id (tasks ! length (filter is_record pre))
                    = PInt (int (length pre) + 1)))"
proof -
  have "length (filter is_record pre) < length tasks
         \<and> normalise_record L (int (length pre) + 1) kvs
             = Inr (tasks ! length (filter is_record pre))
         \<and> (map_of kvs ''id'' = None
              \<longrightarrow> task_id (tasks ! length (filter is_record pre))
                    = PInt (int (length pre) + 1))"
    if ret: "normalise_tasks L (pre @ PDict kvs # post) = Inr tasks" for tasks
  proof -
    from ret obtain ts t us where pre: "normalise_from L 1 pre = Inr ts"
      and rec: "normalise_record L (1 + int (length pre)) kvs = Inr t"
      and tasks: "tasks = ts @ t # us"
      by (auto simp: normalise_tasks_def normalise_from_append split: sum.splits)
    from length_normalise_from[OF pre] have len: "length ts = length (filter is_record pre)" .
    from tasks have "tasks ! length ts = t" by simp
    with len have nth: "tasks ! length (filter is_record pre) = t" by simp
    from normalise_record_id_title(1)[OF rec]
    have "map_of kvs ''id'' = None \<longrightarrow> task_id t = PInt (int (length pre) + 1)"
      by (simp add: dict_get_def add.commute)
    with nth rec len tasks show ?thesis by (simp add: add.commute)
  qed
  with normalise_tasks_ok[of L "pre @ PDict kvs # post"] show ?thesis by blast
qed

theorem normalise_default_id_witness:
  "normalise_input_ok example_lib [PStr ''not a record'', PDict [(''title'', PStr ''X'')]]
   \<and> map_of [(''title'', PStr ''X'')] ''id'' = None
   \<and> (\<exists>tasks. normalise_tasks example_lib
                  [PStr ''not a record'', PDict [(''title'', PStr ''X'')]] = Inr tasks
        \<and> 0 < length tasks
        \<and> normalise_record example_lib 2 [(''title'', PStr ''X'')] = Inr (tasks ! 0)
        \<and> task_id (tasks ! 0) = PInt 2)"
proof -
  have ok: "normalise_input_ok example_lib
      ([PStr ''not a record''] @ PDict [(''title'', PStr ''X'')] # [])"
    by (simp add: normalise_input_ok_def record_ok_def title_ok_def hours_ok_def
        importance_ok_def dict_get_def py_or_def py_str_def)
  note d = normalise_default_id [of example_lib "[PStr ''not a record'']"
      "[(''title'', PStr ''X'')]" "[]"]
  from d ok obtain tasks where t: "normalise_tasks example_lib
      ([PStr ''not a record''] @ PDict [(''title'', PStr ''X'')] # []) = Inr tasks"
    by blast
  with d have "length (filter is_record [PStr ''not a record'']) < length tasks
         \<and> normalise_record example_lib (int (length [PStr ''not a record'']) + 1)
               [(''title'', PStr ''X'')]
             = Inr (tasks ! length (filter is_record [PStr ''not a record'']))
         \<and> (map_of [(''title'', PStr ''X'')] ''id'' = None
              \<longrightarrow> task_id (tasks ! length (filter is_record [PStr ''not a record'']))
                    = PInt (int (length [PStr ''not a record'']) + 1))"
    by blast
  then have "0 < length tasks
        \<and> normalise_record example_lib 2 [(''title'', PStr ''X'')] = Inr (tasks ! 0)
        \<and> task_id (tasks ! 0) = PInt 2"
    by simp
  with t ok show ?thesis by auto
qed

text \<open>The example of the claim: the only task of the output has the id 2, not 1.\<close>

theorem normalise_default_id_counterexample:
  "normalise_tasks example_lib [PStr ''not a record'', PDict [(''title'', PStr ''X'')]]
     = Inr [\<lparr>task_id = PInt 2, title = ''X'', due_date = None, estimated_hours = None,
              importance = None, dependencies = []\<rparr>]"
  by (simp add: eval_normalise)

text \<open>
  Claim C4, as the code has it. The normaliser returns on every input whose records
  convert without an exception. When it returns, its tasks are, in order, those of the
  records of the input; every task has a title that is not empty, and the id of a task is
  None exactly when its own record carries an \<open>id\<close> field whose value is None.
\<close>

theorem normalise_title_id:
  "(normalise_input_ok L raw_tasks \<longrightarrow> (\<exists>tasks. normalise_tasks L raw_tasks = Inr tasks))
   \<and> (\<forall>tasks. normalise_tasks L raw_tasks = Inr tasks \<longrightarrow>
         list_all2
           (\<lambda>raw t. title t \<noteq> []
              \<and> (task_id t = PNone
                   \<longleftrightarrow> (\<exists>kvs. raw = PDict kvs \<and> map_of kvs ''id'' = Some PNone)))
           (filter is_record raw_tasks) tasks)"
proof -
  have rec: "title t \<noteq> [] \<and> (task_id t = PNone \<longleftrightarrow> map_of kvs ''id'' = Some PNone)"
    if "normalise_record L i kvs = Inr t" for i kvs t
    using normalise_record_id_title[OF that]
    by (auto simp: dict_get_def split: option.splits)
  have "list_all2
           (\<lambda>raw t. title t \<noteq> []
              \<and> (task_id t = PNone
                   \<longleftrightarrow> (\<exists>kvs. raw = PDict kvs \<and> map_of kvs ''id'' = Some PNone)))
           (filter is_record raws) ts"
    if "normalise_from L i raws = Inr ts" for i raws ts
    using that
  proof (induction raws arbitrary: i ts)
    case Nil
    then show ?case by simp
  next
    case (Cons raw rest)
    show ?case
    proof (cases raw)
      case (PDict kvs)
      with Cons.prems obtain t us where t: "normalise_record L i kvs = Inr t"
        and us: "normalise_from L (i + 1) rest = Inr us" and ts: "ts = t # us"
        by (auto split: sum.splits)
      from rec[OF t] Cons.IH[OF us] PDict ts show ?thesis by simp
    qed (use Cons.IH[of "i + 1" ts] Cons.prems in simp_all)
  qed
  with normalise_tasks_ok[of L raw_tasks] show ?thesis
    by (simp add: normalise_tasks_def)
qed

lemma example_null_id_tasks:
  "normalise_tasks example_lib
       [PDict [(''id'', PNone), (''title'', PStr ''  '')], PInt 3,
        PDict [(''id'', PInt 7), (''title'', PInt 0)]]
   = Inr [\<lparr>task_id = PNone, title = ''Untitled task'', due_date = None, estimated_hours = None,
             importance = None, dependencies = []\<rparr>,
          \<lparr>task_id = PInt 7, title = ''Untitled task'', due_date = None, estimated_hours = None,
             importance = None, dependencies = []\<rparr>]"
  by (simp add: eval_normalise)

theorem normalise_title_id_witness:
  "normalise_input_ok example_lib
       [PDict [(''id'', PNone), (''title'', PStr ''  '')], PInt 3,
        PDict [(''id'', PInt 7), (''title'', PInt 0)]]
   \<and> (\<exists>tasks. normalise_tasks example_lib
         [PDict [(''id'', PNone), (''title'', PStr ''  '')], PInt 3,
          PDict [(''id'', PInt 7), (''title'', PInt 0)]] = Inr tasks
        \<and> map title tasks = [''Untitled task'', ''Untitled task'']
        \<and> title (tasks ! 0) \<noteq> [] \<and> title (tasks ! 1) \<noteq> []
        \<and> task_id (tasks ! 0) = PNone \<and> task_id (tasks ! 1) \<noteq> PNone)"
proof -
  let ?raws = "[PDict [(''id'', PNone), (''title'', PStr ''  '')], PInt 3,
        PDict [(''id'', PInt 7), (''title'', PInt 0)]]"
  have ok: "normalise_input_ok example_lib ?raws"
    by (simp add: normalise_input_ok_def record_ok_def title_ok_def hours_ok_def
        importance_ok_def dict_get_def py_or_def py_str_def)
  note n = normalise_title_id [of example_lib ?raws]
  from n ok obtain tasks where t: "normalise_tasks example_lib ?raws = Inr tasks" by blast
  with n have all: "list_all2
           (\<lambda>raw t. title t \<noteq> []
              \<and> (task_id t = PNone
                   \<longleftrightarrow> (\<exists>kvs. raw = PDict kvs \<and> map_of kvs ''id'' = Some PNone)))
           (filter is_record ?raws) tasks"
    by blast
  from list_all2_nthD[OF all, of 0]
  have 0: "title (tasks ! 0) \<noteq> [] \<and> task_id (tasks ! 0) = PNone" by simp
  from list_all2_nthD[OF all, of 1]
  have 1: "title (tasks ! 1) \<noteq> [] \<and> task_id (tasks ! 1) \<noteq> PNone" by simp
  from t have titles: "map title tasks = [''Untitled task'', ''Untitled task'']"
    unfolding example_null_id_tasks by auto
  have "\<exists>tasks. normalise_tasks example_lib ?raws = Inr tasks
        \<and> map title tasks = [''Untitled task'', ''Untitled task'']
        \<and> title (tasks ! 0) \<noteq> [] \<and> title (tasks ! 1) \<noteq> []
        \<and> task_id (tasks ! 0) = PNone \<and> task_id (tasks ! 1) \<noteq> PNone"
  proof (intro exI conjI)
    show "normalise_tasks example_lib ?raws = Inr tasks" by (rule t)
    show "map title tasks = [''Untitled task'', ''Untitled task'']" by (rule titles)
    show "title (tasks ! 0) \<noteq> []" using 0 by simp
    show "title (tasks ! 1) \<noteq> []" using 1 by simp
    show "task_id (tasks ! 0) = PNone" using 0 by simp
    show "task_id (tasks ! 1) \<noteq> PNone" using 1 by simp
  qed
  with ok show ?thesis by (rule conjI)
qed

text \<open>A record that carries the field \<open>id\<close> with the value None yields a task whose id is
  None.\<close>

theorem normalise_title_id_counterexample:
  "normalise_tasks example_lib [PDict [(''id'', PNone), (''title'', PStr ''X'')]]
     = Inr [\<lparr>task_id = PNone, title = ''X'', due_date = None, estimated_hours = None,
              importance = None, dependencies = []\<rparr>]"
  by (simp add: eval_normalise)

subsection \<open>Dependency graph builder\<close>

lemma task_keys_Nil [simp]: "task_keys [] = {}"
  by (simp add: task_keys_def)

lemma task_keys_Cons:
  "task_keys (t # ts) =
     (if task_id t = PNone then task_keys ts
      else (case py_key (task_id t) of None \<Rightarrow> task_keys ts | Some k \<Rightarrow> insert k (task_keys ts)))"
  by (auto simp: task_keys_def split: option.splits)

lemma keys_graph_setdefault [simp]:
  "fst ` set (graph_setdefault g k v) = insert k (fst ` set g)"
  by (auto simp: graph_setdefault_def)

lemma build_graph_nodes_result:
  "build_graph_nodes ts (g, dc) = Inr (g', dc') \<Longrightarrow>
     fst ` set g' = fst ` set g \<union> task_keys ts
     \<and> (\<forall>k. dc' k = (if k \<in> task_keys ts \<and> dc k = None then Some 0 else dc k))"
proof (induction ts arbitrary: g dc)
  case Nil
  then show ?case by simp
next
  case (Cons t ts)
  show ?case
  proof (cases "task_id t = PNone")
    case True
    with Cons.prems have "build_graph_nodes ts (g, dc) = Inr (g', dc')" by simp
    from Cons.IH[OF this] True show ?thesis by (simp add: task_keys_Cons)
  next
    case False
    with Cons.prems obtain k where k: "py_key (task_id t) = Some k"
      by (auto split: option.splits)
    with False Cons.prems
    have "build_graph_nodes ts (graph_setdefault g k [], count_setdefault dc k 0) = Inr (g', dc')"
      by simp
    from Cons.IH[OF this] False k show ?thesis
      by (auto simp: task_keys_Cons count_setdefault_def)
  qed
qed

lemma build_graph_nodes_ok:
  "\<forall>t \<in> set ts. task_id t \<noteq> PNone \<longrightarrow> hashable (task_id t) \<Longrightarrow>
   \<exists>r. build_graph_nodes ts (g, dc) = Inr r"
  by (induction ts arbitrary: g dc) (auto simp: hashable_def)

lemma occurrences_simps [simp]:
  "occurrences [] k = 0"
  "occurrences (d # ds) k = (if py_key d = Some k then 1 else 0) + occurrences ds k"
  "occurrences (xs @ ys) k = occurrences xs k + occurrences ys k"
  by (simp_all add: occurrences_def)

lemma build_graph_deps_result:
  "build_graph_deps g ds (acc, dc) = Inr (acc', dc') \<Longrightarrow>
     dom dc \<subseteq> dom dc'
     \<and> set acc' \<subseteq> set acc \<union> fst ` set g
     \<and> (\<forall>k. count_get dc' k 0
            = count_get dc k 0 + (if k \<in> fst ` set g then occurrences ds k else 0))"
proof (induction ds arbitrary: acc dc)
  case Nil
  then show ?case by simp
next
  case (Cons d ds)
  from Cons.prems obtain kd where kd: "py_key d = Some kd"
    by (auto split: option.splits)
  show ?case
  proof (cases "kd \<in> fst ` set g")
    case True
    with kd Cons.prems
    have "build_graph_deps g ds (acc @ [kd], dc(kd \<mapsto> count_get dc kd 0 + 1)) = Inr (acc', dc')"
      by simp
    note ih = Cons.IH[OF this]
    from ih have "dom (dc(kd \<mapsto> count_get dc kd 0 + 1)) \<subseteq> dom dc'" by blast
    then have 1: "dom dc \<subseteq> dom dc'" by auto
    from ih True have 2: "set acc' \<subseteq> set acc \<union> fst ` set g" by auto
    from ih have "\<forall>k. count_get dc' k 0
        = count_get (dc(kd \<mapsto> count_get dc kd 0 + 1)) k 0
          + (if k \<in> fst ` set g then occurrences ds k else 0)" by blast
    with kd True have 3: "\<forall>k. count_get dc' k 0
            = count_get dc k 0 + (if k \<in> fst ` set g then occurrences (d # ds) k else 0)"
      by (simp add: count_get_def)
    from 1 2 3 show ?thesis by blast
  next
    case False
    with kd Cons.prems have "build_graph_deps g ds (acc, dc) = Inr (acc', dc')"
      by simp
    from Cons.IH[OF this] kd False show ?thesis by auto
  qed
qed

lemma build_graph_deps_ok:
  "\<forall>d \<in> set ds. hashable d \<Longrightarrow> \<exists>r. build_graph_deps g ds (acc, dc) = Inr r"
  by (induction ds arbitrary: acc dc) (auto simp: hashable_def)

lemma dependency_occurrences_Nil [simp]: "dependency_occurrences [] k = 0"
  by (simp add: dependency_occurrences_def)

lemma dependency_occurrences_Cons:
  "dependency_occurrences (t # ts) k =
     (if task_id t = PNone then 0 else occurrences (dependencies t) k)
       + dependency_occurrences ts k"
  by (simp add: dependency_occurrences_def)

lemma build_graph_edges_result:
  "build_graph_edges ts (g, dc) = Inr (g', dc') \<Longrightarrow> task_keys ts \<subseteq> fst ` set g \<Longrightarrow>
     fst ` set g' = fst ` set g
     \<and> dom dc \<subseteq> dom dc'
     \<and> (\<forall>k. count_get dc' k 0
            = count_get dc k 0 + (if k \<in> fst ` set g then dependency_occurrences ts k else 0))"
proof (induction ts arbitrary: g dc)
  case Nil
  then show ?case by simp
next
  case (Cons t ts)
  show ?case
  proof (cases "task_id t = PNone")
    case True
    with Cons.prems have "build_graph_edges ts (g, dc) = Inr (g', dc')"
      and "task_keys ts \<subseteq> fst ` set g"
      by (simp_all add: task_keys_Cons)
    from Cons.IH[OF this] True show ?thesis
      by (simp add: dependency_occurrences_Cons)
  next
    case False
    with Cons.prems(1) obtain deps dc1 k
      where deps: "build_graph_deps g (dependencies t) ([], dc) = Inr (deps, dc1)"
        and k: "py_key (task_id t) = Some k"
        and rest: "build_graph_edges ts (AList.update k deps g, dc1) = Inr (g', dc')"
      by (auto split: sum.splits option.splits)
    from Cons.prems(2) False k have kin: "k \<in> fst ` set g" and sub: "task_keys ts \<subseteq> fst ` set g"
      by (auto simp: task_keys_Cons)
    from kin have keys: "fst ` set (AList.update k deps g) = fst ` set g"
      by (auto simp: dom_update)
    from sub keys have "task_keys ts \<subseteq> fst ` set (AList.update k deps g)" by simp
    note ih = Cons.IH[OF rest this, unfolded keys]
    note dr = build_graph_deps_result[OF deps]
    from ih have 1: "fst ` set g' = fst ` set g" by blast
    from ih dr have 2: "dom dc \<subseteq> dom dc'" by blast
    from ih dr False have 3: "\<forall>k. count_get dc' k 0
        = count_get dc k 0 + (if k \<in> fst ` set g then dependency_occurrences (t # ts) k else 0)"
      by (simp add: dependency_occurrences_Cons)
    from 1 2 3 show ?thesis by blast
  qed
qed

lemma build_graph_edges_ok:
  "graph_input_ok ts \<Longrightarrow> \<exists>r. build_graph_edges ts (g, dc) = Inr r"
proof (induction ts arbitrary: g dc)
  case Nil
  then show ?case by simp
next
  case (Cons t ts)
  from Cons.prems have ok: "graph_input_ok ts" by (simp add: graph_input_ok_def)
  show ?case
  proof (cases "task_id t = PNone")
    case True
    with Cons.IH[OF ok] show ?thesis by simp
  next
    case False
    with Cons.prems have "\<forall>d \<in> set (dependencies t). hashable d" and "hashable (task_id t)"
      by (simp_all add: graph_input_ok_def)
    with build_graph_deps_ok[of "dependencies t" g "[]" dc]
    obtain deps dc1 k where "build_graph_deps g (dependencies t) ([], dc) = Inr (deps, dc1)"
      and "py_key (task_id t) = Some k"
      by (auto simp: hashable_def)
    with False Cons.IH[OF ok, of "AList.update k deps g" dc1] show ?thesis by simp
  qed
qed

lemma build_graph_ok:
  "graph_input_ok tasks \<Longrightarrow> \<exists>g dc. build_graph tasks = Inr (g, dc)"
proof -
  assume ok: "graph_input_ok tasks"
  then have "\<forall>t \<in> set tasks. task_id t \<noteq> PNone \<longrightarrow> hashable (task_id t)"
    by (simp add: graph_input_ok_def)
  from build_graph_nodes_ok[OF this, of "[]" Map.empty]
  obtain st where st: "build_graph_nodes tasks ([], Map.empty) = Inr st" by blast
  obtain g0 dc0 where "st = (g0, dc0)" by (cases st)
  with build_graph_edges_ok[OF ok, of g0 dc0] st show ?thesis
    by (auto simp: build_graph_def)
qed

lemma build_graph_result:
  assumes "build_graph tasks = Inr (g, dc)"
  shows "fst ` set g = task_keys tasks"
    and "\<forall>k \<in> task_keys tasks. dc k = Some (dependency_occurrences tasks k)"
proof -
  from assms obtain g0 dc0 where n: "build_graph_nodes tasks ([], Map.empty) = Inr (g0, dc0)"
    and e: "build_graph_edges tasks (g0, dc0) = Inr (g, dc)"
    by (auto simp: build_graph_def split: sum.splits)
  from build_graph_nodes_result[OF n]
  have k0: "fst ` set g0 = task_keys tasks"
    and d0: "\<forall>k. dc0 k = (if k \<in> task_keys tasks then Some 0 else None)"
    by auto
  from k0 have "task_keys tasks \<subseteq> fst ` set g0" by simp
  note r = build_graph_edges_result[OF e this]
  from r k0 show "fst ` set g = task_keys tasks" by simp
  show "\<forall>k \<in> task_keys tasks. dc k = Some (dependency_occurrences tasks k)"
  proof
    fix k assume k: "k \<in> task_keys tasks"
    with d0 have "k \<in> dom dc0" by auto
    with r have "k \<in> dom dc" by auto
    then obtain c where c: "dc k = Some c" by auto
    from r k k0 d0 have "count_get dc k 0 = dependency_occurrences tasks k"
      by (simp add: count_get_def)
    with c show "dc k = Some (dependency_occurrences tasks k)"
      by (simp add: count_get_def)
  qed
qed

lemmas eval_graph =
  build_graph_def graph_setdefault_def count_setdefault_def count_get_def

text \<open>
  Claim C10, as the code has it. The builder returns on every input whose ids and
  dependency entries can be hashed. When it returns, the nodes of the graph are the keys
  of the tasks that have an id, and the dependents-count of a node is the number of
  occurrences of its key in the dependencies lists of the tasks that have an id: a list that
  holds the key twice adds two, a task that lists its own id adds one to its own count. The
  dependencies of a task whose id is None are not counted.
\<close>

theorem build_graph_counts_occurrences:
  "(graph_input_ok tasks \<longrightarrow> (\<exists>g dc. build_graph tasks = Inr (g, dc)))
   \<and> (\<forall>g dc. build_graph tasks = Inr (g, dc) \<longrightarrow>
         fst ` set g = task_keys tasks
         \<and> (\<forall>k \<in> task_keys tasks. dc k = Some (dependency_occurrences tasks k)))"
  using build_graph_ok build_graph_result by blast

lemma example_tasks_self_and_twice:
  "normalise_tasks example_lib
       [PDict [(''id'', PInt 1), (''dependencies'', PList [PInt 1])],
        PDict [(''id'', PInt 2), (''dependencies'', PList [PInt 1, PInt 1])]]
   = Inr [\<lparr>task_id = PInt 1, title = ''Untitled task'', due_date = None,
             estimated_hours = None, importance = None, dependencies = [PInt 1]\<rparr>,
          \<lparr>task_id = PInt 2, title = ''Untitled task'', due_date = None,
             estimated_hours = None, importance = None, dependencies = [PInt 1, PInt 1]\<rparr>]"
  by (simp add: eval_normalise)

theorem build_graph_counts_occurrences_witness:
  "(case normalise_tasks example_lib
       [PDict [(''id'', PInt 1), (''dependencies'', PList [PInt 1])],
        PDict [(''id'', PInt 2), (''dependencies'', PList [PInt 1, PInt 1])]] of
      Inl e \<Rightarrow> False
    | Inr tasks \<Rightarrow>
        graph_input_ok tasks
        \<and> (\<exists>g dc. build_graph tasks = Inr (g, dc)
             \<and> fst ` set g = {KNum 1, KNum 2} \<and> dc (KNum 1) = Some 3 \<and> dc (KNum 2) = Some 0))"
proof -
  let ?tasks = "[\<lparr>task_id = PInt 1, title = ''Untitled task'', due_date = None,
             estimated_hours = None, importance = None, dependencies = [PInt 1]\<rparr>,
          \<lparr>task_id = PInt 2, title = ''Untitled task'', due_date = None,
             estimated_hours = None, importance = None, dependencies = [PInt 1, PInt 1]\<rparr>]"
  have ok: "graph_input_ok ?tasks"
    by (simp add: graph_input_ok_def hashable_def)
  have keys: "task_keys ?tasks = {KNum 1, KNum 2}"
    by (auto simp: task_keys_Cons)
  have occ: "dependency_occurrences ?tasks (KNum 1) = 3"
    "dependency_occurrences ?tasks (KNum 2) = 0"
    by (simp_all add: dependency_occurrences_Cons)
  note main = build_graph_counts_occurrences [of ?tasks]
  from main ok obtain g dc where g: "build_graph ?tasks = Inr (g, dc)" by blast
  with main have "fst ` set g = task_keys ?tasks"
    and "\<forall>k \<in> task_keys ?tasks. dc k = Some (dependency_occurrences ?tasks k)"
    by blast+
  with keys occ have "fst ` set g = {KNum 1, KNum 2} \<and> dc (KNum 1) = Some 3
      \<and> dc (KNum 2) = Some 0"
    by simp
  with g have "\<exists>g dc. build_graph ?tasks = Inr (g, dc)
             \<and> fst ` set g = {KNum 1, KNum 2} \<and> dc (KNum 1) = Some 3 \<and> dc (KNum 2) = Some 0"
    by blast
  with ok show ?thesis unfolding example_tasks_self_and_twice by simp
qed

text \<open>The id 5 occurs once in the dependencies list of a task, a task whose id is None, and
  the dependents-count of 5 stays 0. A dependency entry that is a list makes the builder
  raise TypeError.\<close>

theorem build_graph_counts_occurrences_counterexample:
  "(case normalise_tasks example_lib
        [PDict [(''id'', PNone), (''dependencies'', PList [PInt 5])],
         PDict [(''id'', PInt 5)]] of
      Inl e \<Rightarrow> False
    | Inr tasks \<Rightarrow>
        (case build_graph tasks of
           Inl e \<Rightarrow> False
         | Inr (g, dc) \<Rightarrow> dc (KNum 5) = Some 0)
        \<and> occurrences (concat (map dependencies tasks)) (KNum 5) = 1)
   \<and> (case normalise_tasks example_lib
        [PDict [(''id'', PInt 1), (''dependencies'', PList [PList []])]] of
      Inl e \<Rightarrow> False
    | Inr tasks \<Rightarrow> build_graph tasks = Inl TypeError)"
  by (simp add: eval_normalise eval_graph)

subsection \<open>Dependency scorer\<close>

lemma dependency_score_bound:
  assumes "dependency_score t dc cyc = Inr x" and "py_key (task_id t) = Some k"
  shows "x \<le> 40 + min (real (count_get dc k 0) * 15) 45" and "x \<le> 85" and "0 < x"
  using assms by (auto simp: dependency_score_def Let_def min_def split: if_splits)

lemma dependency_score_cycle_penalty:
  assumes "py_key (task_id t) = Some k" and "task_id t \<noteq> PNone"
    and "k \<in> cyc" and "k \<notin> cyc'"
  shows "dependency_score t dc cyc' = Inr (40 + min (real (count_get dc k 0) * 15) 45)"
    and "dependency_score t dc cyc = Inr ((40 + min (real (count_get dc k 0) * 15) 45) * 0.75)"
    and "(40 + min (real (count_get dc k 0) * 15) 45) * 0.75
           < 40 + min (real (count_get dc k 0) * 15) 45"
  using assms by (simp_all add: dependency_score_def Let_def min_def)

text \<open>
  Claim C5 at an input where it fails. Task 1 has exactly one other task that depends on it,
  task 2, which lists the id 1 twice. The builder counts 2 dependents, and the dependency
  score of task 1 is 70, above the bound \<open>40 + min (1 * 15) 45 = 55\<close> of the claim.
\<close>

theorem dependency_score_duplicate:
  "(case normalise_tasks example_lib
       [PDict [(''id'', PInt 1)],
        PDict [(''id'', PInt 2), (''dependencies'', PList [PInt 1, PInt 1])]] of
      Inl e \<Rightarrow> False
    | Inr tasks \<Rightarrow>
        (case build_graph tasks of
           Inl e \<Rightarrow> False
         | Inr (g, dc) \<Rightarrow>
             dc (KNum 1) = Some 2
             \<and> dependency_score (tasks ! 0) dc (detect_cycles g) = Inr 70)
        \<and> dependents_of tasks (KNum 1) = 1)"
  by (simp add: eval_normalise eval_graph dependency_score_def detect_cycles_def visit.simps
      neighbors_def dependents_of_def)

subsection \<open>Cycle detector\<close>

lemma visit_on_stack:
  "node \<in> stack s \<Longrightarrow> visit g node s = s\<lparr>in_cycle := in_cycle s \<union> stack s\<rparr>"
  by (simp add: visit.simps)

lemma visit_seen:
  "node \<notin> stack s \<Longrightarrow> node \<in> visited s \<Longrightarrow> visit g node s = s"
  by (simp add: visit.simps)

lemma visit_fresh:
  "node \<notin> stack s \<Longrightarrow> node \<notin> visited s \<Longrightarrow>
   visit g node s =
     (visit_each g (neighbors g node) (enter node s))
       \<lparr>stack := stack (visit_each g (neighbors g node) (enter node s)) - {node}\<rparr>"
  by (simp add: visit.simps Let_def enter_def)

lemma visit_cases [case_names on_stack seen fresh]:
  assumes "node \<in> stack s \<Longrightarrow> P"
      and "node \<notin> stack s \<Longrightarrow> node \<in> visited s \<Longrightarrow> P"
      and "node \<notin> stack s \<Longrightarrow> node \<notin> visited s \<Longrightarrow> P"
  shows P
  using assms by blast

text \<open>Frame: the visited and flagged sets only grow, the stack is restored.\<close>

lemma visit_frame:
  "visited s \<subseteq> visited (visit g node s) \<and> in_cycle s \<subseteq> in_cycle (visit g node s)
     \<and> stack (visit g node s) = stack s"
  "visited s \<subseteq> visited (visit_each g ns s) \<and> in_cycle s \<subseteq> in_cycle (visit_each g ns s)
     \<and> stack (visit_each g ns s) = stack s"
proof (induction g node s and g ns s rule: visit_visit_each.induct)
  case (1 g node s)
  show ?case
  proof (cases node s rule: visit_cases)
    case on_stack
    then show ?thesis by (simp add: visit_on_stack)
  next
    case seen
    then show ?thesis by (simp add: visit_seen)
  next
    case fresh
    with 1[OF fresh refl] show ?thesis
      by (auto simp: visit_fresh enter_def)
  qed
next
  case (2 g s)
  show ?case by simp
next
  case (3 g n ns s)
  then show ?case by auto
qed


lemma visit_induct [case_names on_stack seen fresh nil cons]:
  assumes "\<And>g node s. node \<in> stack s \<Longrightarrow> P g node s"
    and "\<And>g node s. node \<notin> stack s \<Longrightarrow> node \<in> visited s \<Longrightarrow> P g node s"
    and "\<And>g node s. node \<notin> stack s \<Longrightarrow> node \<notin> visited s \<Longrightarrow>
           Q g (neighbors g node) (enter node s) \<Longrightarrow> P g node s"
    and "\<And>g s. Q g [] s"
    and "\<And>g n ns s. P g n s \<Longrightarrow> Q g ns (visit g n s) \<Longrightarrow> Q g (n # ns) s"
  shows "P g node s" and "Q g ns s"
proof (induction g node s and g ns s rule: visit_visit_each.induct)
  case (1 g node s)
  show ?case
  proof (cases node s rule: visit_cases)
    case fresh
    with 1[OF fresh refl] assms(3) show ?thesis by (simp add: enter_def)
  qed (use assms in auto)
next
  case (2 g s)
  show ?case by (rule assms(4))
next
  case (3 g n ns s)
  then show ?case by (intro assms(5))
qed

lemma visited_visit_fresh:
  "node \<notin> stack s \<Longrightarrow> node \<notin> visited s \<Longrightarrow>
   visited (visit g node s) = visited (visit_each g (neighbors g node) (enter node s))"
  "node \<notin> stack s \<Longrightarrow> node \<notin> visited s \<Longrightarrow>
   in_cycle (visit g node s) = in_cycle (visit_each g (neighbors g node) (enter node s))"
  by (simp_all add: visit_fresh)

lemma enter_simps [simp]:
  "visited (enter node s) = insert node (visited s)"
  "stack (enter node s) = insert node (stack s)"
  "in_cycle (enter node s) = in_cycle s"
  by (simp_all add: enter_def)

lemma visit_each_on_stack:
  "y \<in> set ns \<Longrightarrow> y \<in> stack s \<Longrightarrow> stack s \<subseteq> in_cycle (visit_each g ns s)"
proof (induction ns arbitrary: s)
  case Nil
  then show ?case by simp
next
  case (Cons n ns)
  show ?case
  proof (cases "y = n")
    case True
    with Cons.prems have "stack s \<subseteq> in_cycle (visit g n s)"
      by (simp add: visit_on_stack)
    with visit_frame(2)[of "visit g n s" g ns] show ?thesis by auto
  next
    case False
    with Cons.prems have "y \<in> set ns" "y \<in> stack (visit g n s)"
      using visit_frame(1)[of s g n] by auto
    from Cons.IH[OF this] visit_frame(1)[of s g n] show ?thesis by simp
  qed
qed

lemma visit_visits:
  "stack s \<subseteq> visited s \<Longrightarrow> node \<in> visited (visit g node s)"
proof (cases node s rule: visit_cases)
  case on_stack
  assume "stack s \<subseteq> visited s"
  with on_stack show ?thesis by (auto simp: visit_on_stack)
next
  case seen
  then show ?thesis by (simp add: visit_seen)
next
  case fresh
  then show ?thesis
    using visit_frame(2)[of "enter node s" g "neighbors g node"]
    by (auto simp: visited_visit_fresh)
qed

lemma visit_each_visits:
  "stack s \<subseteq> visited s \<Longrightarrow> set ns \<subseteq> visited (visit_each g ns s)"
proof (induction ns arbitrary: s)
  case Nil
  then show ?case by simp
next
  case (Cons n ns)
  have inv: "stack (visit g n s) \<subseteq> visited (visit g n s)"
    using Cons.prems visit_frame(1)[of s g n] by auto
  have "n \<in> visited (visit g n s)"
    using Cons.prems by (rule visit_visits)
  with Cons.IH[OF inv] visit_frame(2)[of "visit g n s" g ns] show ?case by auto
qed

lemma visit_flags_back_edges:
  "flags_back_edges g s (visit g node s)"
  "flags_back_edges g s (visit_each g ns s)"
proof (induction g node s and g ns s rule: visit_induct)
  case (on_stack g node s)
  then show ?case by (simp add: flags_back_edges_def visit_on_stack)
next
  case (seen g node s)
  then show ?case by (simp add: flags_back_edges_def visit_seen)
next
  case (fresh g node s)
  let ?out = "visit_each g (neighbors g node) (enter node s)"
  show ?case
    unfolding flags_back_edges_def visited_visit_fresh[OF fresh(1,2)]
  proof (intro ballI impI)
    fix x y
    assume x: "x \<in> visited ?out - visited s" and y: "y \<in> set (neighbors g x)"
      and on: "y \<in> insert x (stack s)"
    show "insert x (stack s) \<subseteq> in_cycle ?out"
    proof (cases "x = node")
      case True
      with y on have "stack (enter node s) \<subseteq> in_cycle ?out"
        by (intro visit_each_on_stack[of y]) auto
      with True show ?thesis by auto
    next
      case False
      with x have "x \<in> visited ?out - visited (enter node s)" by simp
      with fresh(3) y on have "insert x (stack (enter node s)) \<subseteq> in_cycle ?out"
        unfolding flags_back_edges_def by auto
      then show ?thesis by auto
    qed
  qed
next
  case (nil g s)
  show ?case by (simp add: flags_back_edges_def)
next
  case (cons g n ns s)
  let ?mid = "visit g n s"
  from visit_frame(1)[of s g n] visit_frame(2)[of "?mid" g ns]
  have fr: "stack ?mid = stack s" "in_cycle ?mid \<subseteq> in_cycle (visit_each g ns ?mid)"
    "visited s \<subseteq> visited ?mid"
    by auto
  show ?case
    unfolding flags_back_edges_def
  proof (intro ballI impI)
    fix x y
    assume x: "x \<in> visited (visit_each g (n # ns) s) - visited s"
      and y: "y \<in> set (neighbors g x)" and on: "y \<in> insert x (stack s)"
    show "insert x (stack s) \<subseteq> in_cycle (visit_each g (n # ns) s)"
    proof (cases "x \<in> visited ?mid")
      case True
      with x cons(1) y on have "insert x (stack s) \<subseteq> in_cycle ?mid"
        unfolding flags_back_edges_def by auto
      with fr show ?thesis by auto
    next
      case False
      with x cons(2) y on fr show ?thesis
        unfolding flags_back_edges_def by auto
    qed
  qed
qed


lemma visit_closes_new:
  "stack s \<subseteq> visited s \<Longrightarrow> closes_new g s (visit g node s)"
  "stack s \<subseteq> visited s \<Longrightarrow> closes_new g s (visit_each g ns s)"
proof (induction g node s and g ns s rule: visit_induct)
  case (on_stack g node s)
  then show ?case by (simp add: closes_new_def visit_on_stack)
next
  case (seen g node s)
  then show ?case by (simp add: closes_new_def visit_seen)
next
  case (fresh g node s)
  let ?out = "visit_each g (neighbors g node) (enter node s)"
  from fresh(4) have inv: "stack (enter node s) \<subseteq> visited (enter node s)" by auto
  from visit_each_visits[OF inv] have "set (neighbors g node) \<subseteq> visited ?out" .
  with fresh(3)[OF inv] show ?case
    unfolding closes_new_def visited_visit_fresh[OF fresh(1,2)] by auto
next
  case (nil g s)
  show ?case by (simp add: closes_new_def)
next
  case (cons g n ns s)
  let ?mid = "visit g n s"
  from cons.prems visit_frame(1)[of s g n]
  have inv: "stack ?mid \<subseteq> visited ?mid" by auto
  from visit_frame(2)[of "?mid" g ns]
  have "visited ?mid \<subseteq> visited (visit_each g ns ?mid)" by simp
  with cons.IH(1)[OF cons.prems] cons.IH(2)[OF inv] show ?case
    unfolding closes_new_def by (auto; blast)
qed

lemma visit_flags_mutual:
  "stack s \<subseteq> visited s \<Longrightarrow> flags_mutual g s (visit g node s)"
  "stack s \<subseteq> visited s \<Longrightarrow> flags_mutual g s (visit_each g ns s)"
proof (induction g node s and g ns s rule: visit_induct)
  case (on_stack g node s)
  then show ?case by (simp add: flags_mutual_def visit_on_stack)
next
  case (seen g node s)
  then show ?case by (simp add: flags_mutual_def visit_seen)
next
  case (fresh g node s)
  let ?mid = "enter node s"
  let ?out = "visit_each g (neighbors g node) ?mid"
  from fresh(4) have inv: "stack ?mid \<subseteq> visited ?mid" by auto
  note bk = visit_flags_back_edges(2)[of g "?mid" "neighbors g node", unfolded flags_back_edges_def]
  note ih = fresh(3)[OF inv, unfolded flags_mutual_def]
  show ?case
    unfolding flags_mutual_def visited_visit_fresh[OF fresh(1,2)]
  proof (intro ballI impI, elim conjE)
    fix x y
    assume x: "x \<in> visited ?out - visited s" and y: "y \<in> set (neighbors g x)"
      and yx: "x \<in> set (neighbors g y)" and ynew: "y \<notin> visited s"
    consider (self) "x = node" "y = node" | (down) "x = node" "y \<noteq> node"
      | (up) "x \<noteq> node" "y = node" | (below) "x \<noteq> node" "y \<noteq> node"
      by blast
    then show "x \<in> in_cycle ?out \<and> y \<in> in_cycle ?out"
    proof cases
      case self
      with y have "stack ?mid \<subseteq> in_cycle ?out"
        by (intro visit_each_on_stack[of node]) auto
      with self show ?thesis by auto
    next
      case down
      with y visit_each_visits[OF inv, of "neighbors g node" g] ynew
      have "y \<in> visited ?out - visited ?mid" by auto
      moreover from down yx have "x \<in> set (neighbors g y)" "x \<in> insert y (stack ?mid)"
        by auto
      ultimately have "insert y (stack ?mid) \<subseteq> in_cycle ?out"
        using bk by blast
      with down show ?thesis by auto
    next
      case up
      with x have "x \<in> visited ?out - visited ?mid" by auto
      moreover from up y have "y \<in> set (neighbors g x)" "y \<in> insert x (stack ?mid)"
        by auto
      ultimately have "insert x (stack ?mid) \<subseteq> in_cycle ?out"
        using bk by blast
      with up show ?thesis by auto
    next
      case below
      with x ynew have "x \<in> visited ?out - visited ?mid" "y \<notin> visited ?mid" by auto
      with ih y yx show ?thesis by blast
    qed
  qed
next
  case (nil g s)
  show ?case by (simp add: flags_mutual_def)
next
  case (cons g n ns s)
  let ?mid = "visit g n s"
  let ?out = "visit_each g ns ?mid"
  from cons.prems visit_frame(1)[of s g n]
  have inv: "stack ?mid \<subseteq> visited ?mid" by auto
  from visit_frame(2)[of "?mid" g ns]
  have mono: "in_cycle ?mid \<subseteq> in_cycle ?out" by simp
  note ih1 = cons.IH(1)[OF cons.prems, unfolded flags_mutual_def]
  note ih2 = cons.IH(2)[OF inv, unfolded flags_mutual_def]
  note closed = visit_closes_new(1)[OF cons.prems, of g n, unfolded closes_new_def]
  show ?case
    unfolding flags_mutual_def
  proof (intro ballI impI, elim conjE)
    fix x y
    assume x: "x \<in> visited (visit_each g (n # ns) s) - visited s"
      and y: "y \<in> set (neighbors g x)"
      and yx: "x \<in> set (neighbors g y)" and ynew: "y \<notin> visited s"
    show "x \<in> in_cycle (visit_each g (n # ns) s) \<and> y \<in> in_cycle (visit_each g (n # ns) s)"
    proof (cases "x \<in> visited ?mid")
      case True
      with x ih1 y yx ynew have "x \<in> in_cycle ?mid \<and> y \<in> in_cycle ?mid" by blast
      with mono show ?thesis by auto
    next
      case False
      have "y \<notin> visited ?mid"
      proof
        assume "y \<in> visited ?mid"
        with ynew closed yx have "x \<in> visited ?mid" by blast
        with False show False by contradiction
      qed
      with False x ih2 y yx show ?thesis by auto
    qed
  qed
qed

lemma detect_loop_visit_each:
  "stack s = {} \<Longrightarrow> detect_loop g nodes s = visit_each g nodes s"
proof (induction nodes arbitrary: s)
  case Nil
  show ?case by simp
next
  case (Cons n ns)
  have "stack (visit g n s) = {}"
    using Cons.prems visit_frame(1)[of s g n] by simp
  from Cons.IH[OF this] Cons.IH[OF Cons.prems] Cons.prems show ?case
    by (simp add: visit_seen)
qed

lemma neighbors_key: "y \<in> set (neighbors g x) \<Longrightarrow> x \<in> fst ` set g"
proof (rule ccontr)
  assume "y \<in> set (neighbors g x)" and "x \<notin> fst ` set g"
  then show False by (simp add: neighbors_def map_of_eq_None_iff[THEN iffD2])
qed

text \<open>
  Claim C6. In every graph, two nodes that are neighbours of each other are both in the set
  that the cycle detector returns; with \<open>a = b\<close>, a node that is its own neighbour is in it.
\<close>

theorem detect_cycles_mutual:
  assumes "b \<in> set (neighbors g a)" and "a \<in> set (neighbors g b)"
  shows "a \<in> detect_cycles g \<and> b \<in> detect_cycles g"
proof -
  let ?init = "\<lparr>visited = {}, stack = {}, in_cycle = {}\<rparr> :: 'a dfs"
  let ?fin = "visit_each g (map fst g) ?init"
  have eq: "detect_loop g (map fst g) ?init = ?fin"
    by (rule detect_loop_visit_each) simp
  have "set (map fst g) \<subseteq> visited ?fin"
    by (rule visit_each_visits) simp
  with neighbors_key[OF assms(1)] have "a \<in> visited ?fin - visited ?init" by auto
  moreover have "flags_mutual g ?init ?fin"
    by (rule visit_flags_mutual) simp
  ultimately have "a \<in> in_cycle ?fin \<and> b \<in> in_cycle ?fin"
    using assms unfolding flags_mutual_def by auto
  then show ?thesis by (simp add: detect_cycles_def eq)
qed

theorem detect_cycles_mutual_witness:
  "(case normalise_tasks example_lib
        [PDict [(''id'', PStr ''A''), (''dependencies'', PStr ''B'')],
         PDict [(''id'', PStr ''B''), (''dependencies'', PStr ''A, C'')],
         PDict [(''id'', PStr ''C''), (''dependencies'', PStr ''C'')],
         PDict [(''id'', PStr ''D'')]] of
      Inl e \<Rightarrow> False
    | Inr tasks \<Rightarrow>
        (case build_graph tasks of
           Inl e \<Rightarrow> False
         | Inr (g, dc) \<Rightarrow>
             KStr ''B'' \<in> set (neighbors g (KStr ''A''))
             \<and> KStr ''A'' \<in> set (neighbors g (KStr ''B''))
             \<and> KStr ''C'' \<in> set (neighbors g (KStr ''C''))
             \<and> KStr ''A'' \<in> detect_cycles g \<and> KStr ''B'' \<in> detect_cycles g
             \<and> KStr ''C'' \<in> detect_cycles g))"
proof -
  let ?g = "[(KStr ''A'', [KStr ''B'']), (KStr ''B'', [KStr ''A'', KStr ''C'']),
             (KStr ''C'', [KStr ''C'']), (KStr ''D'', [])]"
  have nb: "KStr ''B'' \<in> set (neighbors ?g (KStr ''A''))"
    "KStr ''A'' \<in> set (neighbors ?g (KStr ''B''))"
    "KStr ''C'' \<in> set (neighbors ?g (KStr ''C''))"
    by (simp_all add: neighbors_def)
  from detect_cycles_mutual [OF nb(1) nb(2)] detect_cycles_mutual [OF nb(3) nb(3)] nb
  have flagged: "KStr ''B'' \<in> set (neighbors ?g (KStr ''A''))
        \<and> KStr ''A'' \<in> set (neighbors ?g (KStr ''B''))
        \<and> KStr ''C'' \<in> set (neighbors ?g (KStr ''C''))
        \<and> KStr ''A'' \<in> detect_cycles ?g \<and> KStr ''B'' \<in> detect_cycles ?g
        \<and> KStr ''C'' \<in> detect_cycles ?g"
    by blast
  have "\<exists>tasks dc. normalise_tasks example_lib
        [PDict [(''id'', PStr ''A''), (''dependencies'', PStr ''B'')],
         PDict [(''id'', PStr ''B''), (''dependencies'', PStr ''A, C'')],
         PDict [(''id'', PStr ''C''), (''dependencies'', PStr ''C'')],
         PDict [(''id'', PStr ''D'')]] = Inr tasks
      \<and> build_graph tasks = Inr (?g, dc)"
    by (simp add: eval_normalise eval_graph)
  then obtain tasks dc where "normalise_tasks example_lib
        [PDict [(''id'', PStr ''A''), (''dependencies'', PStr ''B'')],
         PDict [(''id'', PStr ''B''), (''dependencies'', PStr ''A, C'')],
         PDict [(''id'', PStr ''C''), (''dependencies'', PStr ''C'')],
         PDict [(''id'', PStr ''D'')]] = Inr tasks"
    and "build_graph tasks = Inr (?g, dc)"
    by blast
  with flagged show ?thesis by simp
qed

subsection \<open>Ranker\<close>

lemma dependency_score_ok:
  "task_id t \<noteq> PNone \<longrightarrow> hashable (task_id t) \<Longrightarrow> \<exists>d. dependency_score t dc cyc = Inr d"
  by (auto simp: dependency_score_def hashable_def Let_def)

lemma compute_score_ok:
  "strategy \<in> recognized_strategies \<Longrightarrow> \<exists>c. compute_score_for_strategy u i e d strategy = Inr c"
  by (auto simp: compute_score_for_strategy_def recognized_strategies_def)

lemma importance_score_ok:
  "\<forall>i. imp = Some i \<longrightarrow> \<bar>i\<bar> < float_int_limit \<Longrightarrow> \<exists>x. importance_score imp = Inr x"
  by (cases imp) (auto simp: importance_score_def int_to_float_def)

lemma score_task_ok:
  assumes "strategy \<in> recognized_strategies"
    and "task_id t \<noteq> PNone \<longrightarrow> hashable (task_id t)"
    and "\<forall>i. importance t = Some i \<longrightarrow> \<bar>i\<bar> < float_int_limit"
  shows "\<exists>r. score_task L today strategy dc cyc t = Inr r \<and> scored_from L t r"
proof -
  from importance_score_ok[OF assms(3)] obtain x
    where x: "importance_score (importance t) = Inr x" by blast
  from dependency_score_ok[OF assms(2)] obtain d where d: "dependency_score t dc cyc = Inr d"
    by blast
  from compute_score_ok[OF assms(1)] obtain c
    where "compute_score_for_strategy (urgency_score (due_date t) today) x
             (effort_score (estimated_hours t)) d strategy = Inr c"
    by blast
  with x d show ?thesis by (simp add: score_task_def scored_from_def)
qed

lemma score_tasks_ok:
  assumes "strategy \<in> recognized_strategies"
  shows "\<forall>t \<in> set ts. (task_id t \<noteq> PNone \<longrightarrow> hashable (task_id t))
             \<and> (\<forall>i. importance t = Some i \<longrightarrow> \<bar>i\<bar> < float_int_limit) \<Longrightarrow>
         \<exists>rs. score_tasks L today strategy dc cyc ts = Inr rs \<and> list_all2 (scored_from L) ts rs"
proof (induction ts)
  case Nil
  show ?case by simp
next
  case (Cons t ts)
  from Cons.prems have "task_id t \<noteq> PNone \<longrightarrow> hashable (task_id t)"
    and "\<forall>i. importance t = Some i \<longrightarrow> \<bar>i\<bar> < float_int_limit" by simp_all
  from score_task_ok[OF assms this] obtain r
    where r: "score_task L today strategy dc cyc t = Inr r" "scored_from L t r" by blast
  from Cons obtain rs
    where "score_tasks L today strategy dc cyc ts = Inr rs" "list_all2 (scored_from L) ts rs"
    by auto
  with r show ?case by simp
qed

lemma due_weight_of_task:
  assumes "scored_from L t r"
    and "\<forall>d. due_date t = Some d \<longrightarrow> isoformat L d \<noteq> [] \<and> strptime_ymd L (isoformat L d) = Some d"
  shows "due_weight L today r = days_until_due_key today t"
  using assms
  by (cases "due_date t")
     (auto simp: scored_from_def due_weight_def days_until_due_key_def py_or_def parse_date_def
        py_str_def Let_def)

lemma importance_val_of_task:
  "scored_from L t r \<Longrightarrow> importance_val r = importance_key t"
  by (auto simp: scored_from_def importance_val_def importance_key_def split: option.splits)

lemma rank_sort_key_eq:
  "rank_sort_key L today r = (- out_score r, due_weight L today r, - importance_val r)"
  by (simp add: rank_sort_key_def)

lemma sorted_rank_keys:
  assumes "sorted (map (rank_sort_key L today) xs)"
  shows "sorted_wrt (\<lambda>a b. out_score b < out_score a
          \<or> (out_score a = out_score b
             \<and> (due_weight L today a < due_weight L today b
                \<or> (due_weight L today a = due_weight L today b
                   \<and> importance_val b \<le> importance_val a)))) xs"
proof -
  from assms have "sorted_wrt (\<lambda>a b. rank_sort_key L today a \<le> rank_sort_key L today b) xs"
    by (simp add: sorted_map)
  then show ?thesis
    by (rule sorted_wrt_mono_rel[rotated]) (auto simp: rank_sort_key_eq less_eq_prod_def)
qed

text \<open>
  Claim C1, as the code has it. Take a recognized strategy and an input on which nothing
  is raised: the normaliser accepts every record, the ids and the dependency entries of the
  normalised tasks can be hashed, and every importance converts to a float. With a runtime
  whose \<open>strptime\<close> reads back what \<open>isoformat\<close> prints, \<open>rank_tasks\<close> returns the scored
  tasks in this order: descending score; then ascending days until due, a task without a
  due date counting as 99999 days; then descending importance, a missing importance
  counting as 0. The result is a permutation of the scored tasks, and the scored tasks with
  one and the same key stand in it in their order before the sort. The order is a function
  of the input, the strategy and the reference date.
\<close>

theorem rank_tasks_order:
  assumes "strategy \<in> recognized_strategies"
    and "normalise_input_ok L raw_tasks"
    and "\<forall>tasks. normalise_tasks L raw_tasks = Inr tasks \<longrightarrow>
           graph_input_ok tasks \<and> importance_in_range tasks
           \<and> (\<forall>t \<in> set tasks. \<forall>d. due_date t = Some d
                 \<longrightarrow> isoformat L d \<noteq> [] \<and> strptime_ymd L (isoformat L d) = Some d)"
  shows "\<exists>tasks scored ranked.
      normalise_tasks L raw_tasks = Inr tasks
    \<and> scored_tasks L today raw_tasks strategy = Inr scored
    \<and> rank_tasks L today raw_tasks strategy = Inr ranked
    \<and> length scored = length tasks
    \<and> (\<forall>i < length scored.
         out_id (scored ! i) = task_id (tasks ! i)
       \<and> due_weight L today (scored ! i) = days_until_due_key today (tasks ! i)
       \<and> importance_val (scored ! i) = importance_key (tasks ! i))
    \<and> mset ranked = mset scored
    \<and> sorted_wrt (\<lambda>a b. out_score b < out_score a
          \<or> (out_score a = out_score b
             \<and> (due_weight L today a < due_weight L today b
                \<or> (due_weight L today a = due_weight L today b
                   \<and> importance_val b \<le> importance_val a)))) ranked
    \<and> (\<forall>k. filter (\<lambda>r. rank_sort_key L today r = k) ranked
          = filter (\<lambda>r. rank_sort_key L today r = k) scored)
    \<and> (\<forall>r. rank_sort_key L today r = (- out_score r, due_weight L today r, - importance_val r))"
proof -
  let ?key = "rank_sort_key L today"
  from assms(2) normalise_tasks_ok[of L raw_tasks] obtain tasks
    where 0: "normalise_tasks L raw_tasks = Inr tasks" by blast
  with assms(3) have ok: "graph_input_ok tasks" and rng: "importance_in_range tasks"
    and rt: "\<forall>t \<in> set tasks. \<forall>d. due_date t = Some d
                 \<longrightarrow> isoformat L d \<noteq> [] \<and> strptime_ymd L (isoformat L d) = Some d"
    by blast+
  from build_graph_ok[OF ok] obtain g dc where g: "build_graph tasks = Inr (g, dc)"
    by blast
  from ok rng have "\<forall>t \<in> set tasks. (task_id t \<noteq> PNone \<longrightarrow> hashable (task_id t))
             \<and> (\<forall>i. importance t = Some i \<longrightarrow> \<bar>i\<bar> < float_int_limit)"
    by (simp add: graph_input_ok_def importance_in_range_def)
  from score_tasks_ok[OF assms(1) this, of L today dc "detect_cycles g"] obtain scored
    where sc: "score_tasks L today strategy dc (detect_cycles g) tasks = Inr scored"
      and rel: "list_all2 (scored_from L) tasks scored"
    by blast
  let ?ranked = "sort_key ?key scored"
  from 0 g sc have 1: "scored_tasks L today raw_tasks strategy = Inr scored"
    by (simp add: scored_tasks_def)
  then have 2: "rank_tasks L today raw_tasks strategy = Inr ?ranked"
    by (simp add: rank_tasks_def)
  from rel have 3: "length scored = length tasks"
    by (simp add: list_all2_lengthD)
  have 4: "\<forall>i < length scored.
         out_id (scored ! i) = task_id (tasks ! i)
       \<and> due_weight L today (scored ! i) = days_until_due_key today (tasks ! i)
       \<and> importance_val (scored ! i) = importance_key (tasks ! i)"
  proof (intro allI impI)
    fix i assume i: "i < length scored"
    with rel 3 have s: "scored_from L (tasks ! i) (scored ! i)"
      by (simp add: list_all2_nthD2)
    from i 3 have "tasks ! i \<in> set tasks" by simp
    with rt have "\<forall>d. due_date (tasks ! i) = Some d
        \<longrightarrow> isoformat L d \<noteq> [] \<and> strptime_ymd L (isoformat L d) = Some d"
      by blast
    from due_weight_of_task[OF s this] importance_val_of_task[OF s] s
    show "out_id (scored ! i) = task_id (tasks ! i)
       \<and> due_weight L today (scored ! i) = days_until_due_key today (tasks ! i)
       \<and> importance_val (scored ! i) = importance_key (tasks ! i)"
      by (simp add: scored_from_def)
  qed
  have 5: "mset ?ranked = mset scored" by simp
  have "sorted (map ?key ?ranked)" by (rule sorted_sort_key)
  note 6 = sorted_rank_keys[OF this]
  have 7: "\<forall>k. filter (\<lambda>r. ?key r = k) ?ranked = filter (\<lambda>r. ?key r = k) scored"
    by (simp add: sort_key_stable)
  from 0 1 2 3 4 5 6 7 rank_sort_key_eq show ?thesis by blast
qed

lemma float_int_limit_large: "10 ^ 300 < float_int_limit" "float_int_limit < 10 ^ 309"
  by (simp_all add: float_int_limit_def)

lemma small_int_to_float [simp]:
  "\<bar>i\<bar> \<le> 10 ^ 300 \<Longrightarrow> int_to_float i = Inr (of_int i)"
  using float_int_limit_large(1) by (simp add: int_to_float_def)

lemma huge_int_to_float [simp]:
  "10 ^ 309 \<le> \<bar>i\<bar> \<Longrightarrow> int_to_float i = Inl OverflowError"
  using float_int_limit_large(2) by (simp add: int_to_float_def)

lemma example_date:
  "iso_parse ''2024-01-20'' = Some 738905" "iso_format 738905 = ''2024-01-20''"
  by code_simp+

lemma example_ranking_tasks:
  "normalise_tasks example_lib
     [PDict [(''id'', PInt 1), (''due_date'', PStr ''2024-01-20''), (''importance'', PInt 5)],
      PDict [(''id'', PInt 2), (''due_date'', PStr ''2024-01-20''), (''importance'', PInt 5)],
      PDict [(''id'', PInt 3), (''importance'', PInt 9)]]
   = Inr [\<lparr>task_id = PInt 1, title = ''Untitled task'', due_date = Some 738905,
             estimated_hours = None, importance = Some 5, dependencies = []\<rparr>,
          \<lparr>task_id = PInt 2, title = ''Untitled task'', due_date = Some 738905,
             estimated_hours = None, importance = Some 5, dependencies = []\<rparr>,
          \<lparr>task_id = PInt 3, title = ''Untitled task'', due_date = None,
             estimated_hours = None, importance = Some 9, dependencies = []\<rparr>]"
  by (simp add: eval_normalise py_int_def example_lib_def example_date)

theorem rank_tasks_order_witness:
  "''high_impact'' \<in> recognized_strategies
   \<and> normalise_input_ok example_lib
     [PDict [(''id'', PInt 1), (''due_date'', PStr ''2024-01-20''), (''importance'', PInt 5)],
      PDict [(''id'', PInt 2), (''due_date'', PStr ''2024-01-20''), (''importance'', PInt 5)],
      PDict [(''id'', PInt 3), (''importance'', PInt 9)]]
   \<and> strptime_ymd example_lib (isoformat example_lib 738905) = Some 738905
   \<and> (\<exists>tasks scored ranked.
        normalise_tasks example_lib
          [PDict [(''id'', PInt 1), (''due_date'', PStr ''2024-01-20''), (''importance'', PInt 5)],
           PDict [(''id'', PInt 2), (''due_date'', PStr ''2024-01-20''), (''importance'', PInt 5)],
           PDict [(''id'', PInt 3), (''importance'', PInt 9)]] = Inr tasks
        \<and> graph_input_ok tasks \<and> importance_in_range tasks
        \<and> map due_date tasks = [Some 738905, Some 738905, None]
        \<and> rank_tasks example_lib 738895
          [PDict [(''id'', PInt 1), (''due_date'', PStr ''2024-01-20''), (''importance'', PInt 5)],
           PDict [(''id'', PInt 2), (''due_date'', PStr ''2024-01-20''), (''importance'', PInt 5)],
           PDict [(''id'', PInt 3), (''importance'', PInt 9)]] ''high_impact'' = Inr ranked
        \<and> map out_id scored = [PInt 1, PInt 2, PInt 3]
        \<and> map out_id ranked = [PInt 3, PInt 1, PInt 2]
        \<and> map out_score ranked = [77, 53, 53]
        \<and> mset ranked = mset scored
        \<and> filter (\<lambda>r. rank_sort_key example_lib 738895 r = (- 53, 10, - 5)) ranked
            = filter (\<lambda>r. rank_sort_key example_lib 738895 r = (- 53, 10, - 5)) scored)"
proof -
  let ?raws = "[PDict [(''id'', PInt 1), (''due_date'', PStr ''2024-01-20''), (''importance'', PInt 5)],
      PDict [(''id'', PInt 2), (''due_date'', PStr ''2024-01-20''), (''importance'', PInt 5)],
      PDict [(''id'', PInt 3), (''importance'', PInt 9)]]"
  let ?tasks = "[\<lparr>task_id = PInt 1, title = ''Untitled task'', due_date = Some 738905,
             estimated_hours = None, importance = Some 5, dependencies = []\<rparr>,
          \<lparr>task_id = PInt 2, title = ''Untitled task'', due_date = Some 738905,
             estimated_hours = None, importance = Some 5, dependencies = []\<rparr>,
          \<lparr>task_id = PInt 3, title = ''Untitled task'', due_date = None,
             estimated_hours = None, importance = Some 9, dependencies = []\<rparr>]"
  let ?scored = "[\<lparr>out_id = PInt 1, out_title = ''Untitled task'',
               out_due_date = Some ''2024-01-20'', out_estimated_hours = None,
               out_importance = Some 5, out_dependencies = [], out_score = 53\<rparr>,
             \<lparr>out_id = PInt 2, out_title = ''Untitled task'',
               out_due_date = Some ''2024-01-20'', out_estimated_hours = None,
               out_importance = Some 5, out_dependencies = [], out_score = 53\<rparr>,
             \<lparr>out_id = PInt 3, out_title = ''Untitled task'', out_due_date = None,
               out_estimated_hours = None, out_importance = Some 9, out_dependencies = [],
               out_score = 77\<rparr>]"
  have h1: "''high_impact'' \<in> recognized_strategies"
    by (simp add: recognized_strategies_def)
  have h2: "normalise_input_ok example_lib ?raws"
    by (simp add: normalise_input_ok_def record_ok_def title_ok_def hours_ok_def
        importance_ok_def dict_get_def py_or_def py_str_def)
  have tk: "normalise_tasks example_lib ?raws = Inr ?tasks"
    by (rule example_ranking_tasks)
  have ok: "graph_input_ok ?tasks"
    by (simp add: graph_input_ok_def hashable_def)
  have rng: "importance_in_range ?tasks"
    using float_int_limit_large(1) by (simp add: importance_in_range_def)
  have rt: "isoformat example_lib 738905 \<noteq> []
      \<and> strptime_ymd example_lib (isoformat example_lib 738905) = Some 738905"
    by (simp add: example_lib_def example_date)
  have h3: "\<forall>tasks. normalise_tasks example_lib ?raws = Inr tasks \<longrightarrow>
           graph_input_ok tasks \<and> importance_in_range tasks
           \<and> (\<forall>t \<in> set tasks. \<forall>d. due_date t = Some d
                 \<longrightarrow> isoformat example_lib d \<noteq> []
                     \<and> strptime_ymd example_lib (isoformat example_lib d) = Some d)"
    unfolding tk using ok rng rt by simp
  from rank_tasks_order [OF h1 h2 h3, of 738895] obtain tasks scored ranked
    where nt: "normalise_tasks example_lib ?raws = Inr tasks"
      and sc: "scored_tasks example_lib 738895 ?raws ''high_impact'' = Inr scored"
      and rk: "rank_tasks example_lib 738895 ?raws ''high_impact'' = Inr ranked"
      and ms: "mset ranked = mset scored"
      and st: "\<forall>k. filter (\<lambda>r. rank_sort_key example_lib 738895 r = k) ranked
          = filter (\<lambda>r. rank_sort_key example_lib 738895 r = k) scored"
    by blast
  from nt tk have tasks: "tasks = ?tasks" by simp
  have "scored_tasks example_lib 738895 ?raws ''high_impact'' = Inr ?scored"
    unfolding scored_tasks_def tk
    by (simp add: eval_graph detect_cycles_def visit.simps neighbors_def score_task_def
        dependency_score_def compute_score_for_strategy_def urgency_score_def
        importance_score_def clamp_def effort_score_def round_half_even_def example_lib_def
        example_date)
  with sc have scored: "scored = ?scored" by simp
  from rk sc have "ranked = sort_key (rank_sort_key example_lib 738895) scored"
    by (simp add: rank_tasks_def)
  then have ranked: "map out_id ranked = [PInt 3, PInt 1, PInt 2]"
    "map out_score ranked = [77, 53, 53]"
    unfolding scored
    by (simp_all add: rank_sort_key_def due_weight_def importance_val_def py_or_def
        parse_date_def py_str_def example_lib_def example_date less_eq_prod_def)
  from scored have ids: "map out_id scored = [PInt 1, PInt 2, PInt 3]" by simp
  note stable = st [rule_format, of "(- 53, 10, - 5)"]
  have "\<exists>tasks scored ranked.
        normalise_tasks example_lib ?raws = Inr tasks
        \<and> graph_input_ok tasks \<and> importance_in_range tasks
        \<and> map due_date tasks = [Some 738905, Some 738905, None]
        \<and> rank_tasks example_lib 738895 ?raws ''high_impact'' = Inr ranked
        \<and> map out_id scored = [PInt 1, PInt 2, PInt 3]
        \<and> map out_id ranked = [PInt 3, PInt 1, PInt 2]
        \<and> map out_score ranked = [77, 53, 53]
        \<and> mset ranked = mset scored
        \<and> filter (\<lambda>r. rank_sort_key example_lib 738895 r = (- 53, 10, - 5)) ranked
            = filter (\<lambda>r. rank_sort_key example_lib 738895 r = (- 53, 10, - 5)) scored"
  proof (intro exI conjI)
    show "normalise_tasks example_lib ?raws = Inr ?tasks" by (rule tk)
    show "graph_input_ok ?tasks" by (rule ok)
    show "importance_in_range ?tasks" by (rule rng)
    show "map due_date ?tasks = [Some 738905, Some 738905, None]" by simp
    show "rank_tasks example_lib 738895 ?raws ''high_impact'' = Inr ranked" by (rule rk)
    show "map out_id scored = [PInt 1, PInt 2, PInt 3]" by (rule ids)
    show "map out_id ranked = [PInt 3, PInt 1, PInt 2]" by (rule ranked(1))
    show "map out_score ranked = [77, 53, 53]" by (rule ranked(2))
    show "mset ranked = mset scored" by (rule ms)
    show "filter (\<lambda>r. rank_sort_key example_lib 738895 r = (- 53, 10, - 5)) ranked
            = filter (\<lambda>r. rank_sort_key example_lib 738895 r = (- 53, 10, - 5)) scored"
      by (rule stable)
  qed
  with h1 h2 rt show ?thesis by simp
qed

text \<open>Four inputs on which the ranking returns no order: an id that is a list cannot be
  hashed (TypeError); estimated hours that are an int beyond the float range, an importance
  that is an infinite float, and an importance that is an int beyond the float range raise
  OverflowError.\<close>

theorem rank_tasks_order_counterexample:
  "rank_tasks example_lib 738895 [PDict [(''id'', PList [PInt 1])]] ''smart_balance''
     = Inl TypeError
   \<and> rank_tasks example_lib 738895
       [PDict [(''id'', PInt 1), (''estimated_hours'', PInt (10 ^ 309))]] ''smart_balance''
     = Inl OverflowError
   \<and> rank_tasks example_lib 738895
       [PDict [(''id'', PInt 1), (''importance'', PFloat PosInf)]] ''smart_balance''
     = Inl OverflowError
   \<and> rank_tasks example_lib 738895
       [PDict [(''id'', PInt 1), (''importance'', PInt (10 ^ 309))]] ''smart_balance''
     = Inl OverflowError"
  by (simp add: rank_tasks_def scored_tasks_def eval_normalise eval_graph py_float_def
      py_int_def score_task_def importance_score_def detect_cycles_def visit.simps
      neighbors_def)

subsection \<open>Strategy names\<close>

text \<open>
  Claim C9. The combiner called with a strategy name that is neither empty nor recognized
  raises StrategyError, and the message ends with the name; so does the ranking of an
  input whose first task is scored without an exception (the scoring of the first task is
  what calls the combiner first). The empty name is treated as \<open>smart_balance\<close>, by the
  combiner and by the whole ranking.
\<close>

theorem strategy_names:
  "(strategy \<noteq> [] \<and> strategy \<notin> recognized_strategies
      \<longrightarrow> compute_score_for_strategy u i e d strategy
            = Inl (StrategyError (''Unknown strategy: '' @ strategy)))
   \<and> (\<forall>t rest. strategy \<noteq> [] \<and> strategy \<notin> recognized_strategies
        \<and> normalise_tasks L raw_tasks = Inr (t # rest) \<and> graph_input_ok (t # rest)
        \<and> (\<forall>v. importance t = Some v \<longrightarrow> \<bar>v\<bar> < float_int_limit)
      \<longrightarrow> rank_tasks L today raw_tasks strategy
            = Inl (StrategyError (''Unknown strategy: '' @ strategy)))
   \<and> compute_score_for_strategy u i e d [] = compute_score_for_strategy u i e d ''smart_balance''
   \<and> rank_tasks L today raw_tasks [] = rank_tasks L today raw_tasks ''smart_balance''"
proof -
  have c: "compute_score_for_strategy u i e d []
      = compute_score_for_strategy u i e d ''smart_balance''" for u i e d
    by (simp add: compute_score_for_strategy_def)
  have t: "score_task L today [] dc cyc t = score_task L today ''smart_balance'' dc cyc t"
    for dc cyc t
    by (simp add: score_task_def c cong: sum.case_cong)
  have ts: "score_tasks L today [] dc cyc ts = score_tasks L today ''smart_balance'' dc cyc ts"
    for dc cyc ts
    by (induction ts) (simp_all add: t cong: sum.case_cong)
  have r: "rank_tasks L today raw_tasks [] = rank_tasks L today raw_tasks ''smart_balance''"
    by (simp add: rank_tasks_def scored_tasks_def ts Let_def
        cong: sum.case_cong prod.case_cong)
  have unknown: "compute_score_for_strategy u i e d strategy
            = Inl (StrategyError (''Unknown strategy: '' @ strategy))"
    if "strategy \<noteq> []" "strategy \<notin> recognized_strategies" for u i e d
    using that by (simp add: compute_score_for_strategy_def recognized_strategies_def)
  have ranking: "rank_tasks L today raw_tasks strategy
            = Inl (StrategyError (''Unknown strategy: '' @ strategy))"
    if s: "strategy \<noteq> []" "strategy \<notin> recognized_strategies"
      and tasks: "normalise_tasks L raw_tasks = Inr (t # rest)"
      and ok: "graph_input_ok (t # rest)"
      and rng: "\<forall>v. importance t = Some v \<longrightarrow> \<bar>v\<bar> < float_int_limit"
    for t rest
  proof -
    from build_graph_ok[OF ok] obtain g dc
      where g: "build_graph (t # rest) = Inr (g, dc)" by blast
    from ok have "task_id t \<noteq> PNone \<longrightarrow> hashable (task_id t)"
      by (simp add: graph_input_ok_def)
    from dependency_score_ok[OF this] obtain x
      where x: "dependency_score t dc (detect_cycles g) = Inr x" by blast
    from importance_score_ok[OF rng] obtain y
      where y: "importance_score (importance t) = Inr y" by blast
    from x y unknown[OF s]
    have "score_task L today strategy dc (detect_cycles g) t
        = Inl (StrategyError (''Unknown strategy: '' @ strategy))"
      by (simp add: score_task_def)
    with g tasks show ?thesis
      by (simp add: rank_tasks_def scored_tasks_def)
  qed
  from c r unknown ranking show ?thesis by blast
qed

theorem strategy_names_witness:
  "''bogus'' \<noteq> [] \<and> ''bogus'' \<notin> recognized_strategies
   \<and> compute_score_for_strategy 95 80 45 55 ''bogus''
       = Inl (StrategyError ''Unknown strategy: bogus'')
   \<and> normalise_tasks example_lib [PDict [(''title'', PStr ''X'')]]
       = Inr [\<lparr>task_id = PInt 1, title = ''X'', due_date = None, estimated_hours = None,
                importance = None, dependencies = []\<rparr>]
   \<and> graph_input_ok [\<lparr>task_id = PInt 1, title = ''X'', due_date = None,
                        estimated_hours = None, importance = None, dependencies = []\<rparr>]
   \<and> rank_tasks example_lib 738895 [PDict [(''title'', PStr ''X'')]] ''bogus''
       = Inl (StrategyError ''Unknown strategy: bogus'')"
proof -
  let ?t = "\<lparr>task_id = PInt 1, title = ''X'', due_date = None, estimated_hours = None,
                importance = None, dependencies = []\<rparr>"
  have h: "''bogus'' \<noteq> [] \<and> ''bogus'' \<notin> recognized_strategies"
    by (simp add: recognized_strategies_def)
  have tk: "normalise_tasks example_lib [PDict [(''title'', PStr ''X'')]] = Inr [?t]"
    by (simp add: eval_normalise)
  have ok: "graph_input_ok [?t]"
    by (simp add: graph_input_ok_def hashable_def)
  have rng: "\<forall>v. importance ?t = Some v \<longrightarrow> \<bar>v\<bar> < float_int_limit" by simp
  note n = strategy_names [of "''bogus''" 95 80 45 55 example_lib
      "[PDict [(''title'', PStr ''X'')]]" 738895]
  from n h have 1: "compute_score_for_strategy 95 80 45 55 ''bogus''
      = Inl (StrategyError (''Unknown strategy: '' @ ''bogus''))" by blast
  from n have "''bogus'' \<noteq> [] \<and> ''bogus'' \<notin> recognized_strategies
        \<and> normalise_tasks example_lib [PDict [(''title'', PStr ''X'')]] = Inr (?t # [])
        \<and> graph_input_ok (?t # [])
        \<and> (\<forall>v. importance ?t = Some v \<longrightarrow> \<bar>v\<bar> < float_int_limit)
      \<longrightarrow> rank_tasks example_lib 738895 [PDict [(''title'', PStr ''X'')]] ''bogus''
            = Inl (StrategyError (''Unknown strategy: '' @ ''bogus''))"
    by blast
  with h tk ok rng
  have 2: "rank_tasks example_lib 738895 [PDict [(''title'', PStr ''X'')]] ''bogus''
            = Inl (StrategyError (''Unknown strategy: '' @ ''bogus''))"
    by blast
  from 1 2 h tk ok show ?thesis by simp
qed

end
